theory Spec2Isabelle
  imports Complex_Main
begin

section \<open>Bunny Bomber: the simulation core of GameEngine.tsx\<close>

text \<open>
  The repository holds two revisions of \<^verbatim>\<open>src/components/GameEngine.tsx\<close>, one after the
  other in the same file: the revision with on-screen touch controls (lines 1 to 475) and the
  keyboard-only revision (lines 476 to 945). Their simulation code is the same except for a
  handful of places (the safe zone of the map generator, the enemy spawn loop, the corner
  slide, the owner test of \<^verbatim>\<open>explodeBomb\<close>, the player's speed and the wander
  probability). The model takes the revision as a parameter wherever the two differ.

  JavaScript numbers are modelled as \<^typ>\<open>real\<close> (positions, timers, speeds) and as
  \<^typ>\<open>int\<close> where the program only ever stores integers (grid indices, counters, ranges);
  rounding of IEEE doubles is not modelled.
\<close>

datatype revision = Touch | Keyboard

subsection \<open>constants.ts\<close>

abbreviation TILE_SIZE :: real where "TILE_SIZE \<equiv> 48"
abbreviation GRID_ROWS :: int where "GRID_ROWS \<equiv> 15"
abbreviation GRID_COLS :: int where "GRID_COLS \<equiv> 15"
abbreviation BOMB_TIMER_MS :: real where "BOMB_TIMER_MS \<equiv> 3000"
abbreviation EXPLOSION_DURATION_MS :: real where "EXPLOSION_DURATION_MS \<equiv> 600"
abbreviation HITBOX_SIZE :: real where "HITBOX_SIZE \<equiv> 30"

subsection \<open>types.ts\<close>

datatype TileType = Empty | HardWall | SoftWall

datatype GameStatus = Menu | Playing | Won | Lost

record Point =
  x :: real
  y :: real

record Entity = Point +
  width :: real
  height :: real

record Player = Entity +
  alive :: bool
  speed :: real
  bombCount :: int
  maxBombs :: int
  blastRadius :: int

record Enemy = Entity +
  enemy_id :: real
  enemy_alive :: bool
  enemy_speed :: real
  direction :: Point
  changeDirTimer :: real

record Bomb = Point +
  bomb_id :: int
  bomb_timer :: real
  bomb_range :: int
  ownerId :: string

record ExplosionParticle = Point +
  alpha :: real

record Explosion =
  explosion_id :: int
  particles :: "ExplosionParticle list"
  explosion_timer :: real

subsection \<open>The state held in the component's refs\<close>

record Inputs =
  ArrowUp :: bool
  ArrowDown :: bool
  ArrowLeft :: bool
  ArrowRight :: bool
  Space :: bool

text \<open>
  \<open>gameStatus\<close> is the React state cell. Inside one call of \<^verbatim>\<open>update\<close> the identifier
  \<^verbatim>\<open>gameStatus\<close> is a constant of the render closure; \<^verbatim>\<open>setGameStatus\<close> writes the
  cell, and the last write of a tick is the status the next tick sees.
\<close>

record World =
  mapRef :: "TileType list list"
  playerRef :: Player
  bombsRef :: "Bomb list"
  explosionsRef :: "Explosion list"
  enemiesRef :: "Enemy list"
  inputsRef :: Inputs
  gameStatus :: GameStatus

datatype error = TypeError

record Rect = Point +
  rect_w :: real
  rect_h :: real

subsection \<open>Helpers\<close>

definition rectIntersect :: "Rect \<Rightarrow> Rect \<Rightarrow> bool" where
  "rectIntersect r1 r2 =
     (\<not> (x r2 \<ge> x r1 + rect_w r1 \<or> x r2 + rect_w r2 \<le> x r1 \<or>
         y r2 \<ge> y r1 + rect_h r1 \<or> y r2 + rect_h r2 \<le> y r1))"

text \<open>\<^verbatim>\<open>getGridPos\<close> returns \<^verbatim>\<open>{c, r}\<close>; the model returns the pair (row, column).\<close>

definition getGridPos :: "real \<Rightarrow> real \<Rightarrow> int \<times> int" where
  "getGridPos px py = (\<lfloor>py / TILE_SIZE\<rfloor>, \<lfloor>px / TILE_SIZE\<rfloor>)"

text \<open>
  The read \<^verbatim>\<open>mapRef.current[r][c]\<close>. Reading a row that the array does not have gives
  \<^verbatim>\<open>undefined\<close>, and indexing that throws a TypeError; reading a column that the row does
  not have gives \<^verbatim>\<open>undefined\<close> (here \<open>None\<close>).
\<close>

definition tileAt :: "TileType list list \<Rightarrow> int \<Rightarrow> int \<Rightarrow> error + TileType option" where
  "tileAt m r c =
     (if r < 0 \<or> int (length m) \<le> r then Inl TypeError
      else let row = m ! nat r
           in if c < 0 \<or> int (length row) \<le> c then Inr None
              else Inr (Some (row ! nat c)))"

definition inGrid :: "int \<Rightarrow> int \<Rightarrow> bool" where
  "inGrid r c = (\<not> (r < 0 \<or> r \<ge> GRID_ROWS \<or> c < 0 \<or> c \<ge> GRID_COLS))"

text \<open>A map of the size \<^verbatim>\<open>initGame\<close> builds: \<open>GRID_ROWS\<close> rows of \<open>GRID_COLS\<close> tiles.\<close>

definition wfGrid :: "TileType list list \<Rightarrow> bool" where
  "wfGrid m = (int (length m) = GRID_ROWS \<and> list_all (\<lambda>row. int (length row) = GRID_COLS) m)"

subsection \<open>Physics: isCollision\<close>

text \<open>
  The two nested for statements over \<open>r = topRow..bottomRow\<close> and \<open>c = leftCol..rightCol\<close> visit the cells in
  row-major order and return \<^verbatim>\<open>true\<close> at the first cell that is outside the grid or not
  Empty. \<open>tileScan\<close> is that loop over the list of the visited cells.
\<close>

definition coveredCells :: "int \<Rightarrow> int \<Rightarrow> int \<Rightarrow> int \<Rightarrow> (int \<times> int) list" where
  "coveredCells topRow bottomRow leftCol rightCol =
     concat (map (\<lambda>r. map (\<lambda>c. (r, c)) [leftCol..rightCol]) [topRow..bottomRow])"

fun tileScan :: "TileType list list \<Rightarrow> (int \<times> int) list \<Rightarrow> error + bool" where
  "tileScan m [] = Inr False"
| "tileScan m ((r, c) # rest) =
     (if r < 0 \<or> r \<ge> GRID_ROWS \<or> c < 0 \<or> c \<ge> GRID_COLS then Inr True
      else case tileAt m r c of
             Inl e \<Rightarrow> Inl e
           | Inr t \<Rightarrow> if t \<noteq> Some Empty then Inr True else tileScan m rest)"

definition bombRect :: "Bomb \<Rightarrow> Rect" where
  "bombRect b = \<lparr>x = x b - TILE_SIZE / 2, y = y b - TILE_SIZE / 2, rect_w = TILE_SIZE, rect_h = TILE_SIZE\<rparr>"

fun bombScan :: "Bomb list \<Rightarrow> Rect \<Rightarrow> Rect \<Rightarrow> bool" where
  "bombScan [] pRect curRect = False"
| "bombScan (b # bs) pRect curRect =
     (if rectIntersect pRect (bombRect b)
      then (if rectIntersect curRect (bombRect b) then bombScan bs pRect curRect else True)
      else bombScan bs pRect curRect)"

definition entityRect :: "real \<Rightarrow> real \<Rightarrow> real \<Rightarrow> real \<Rightarrow> Rect" where
  "entityRect cx cy w h = \<lparr>x = cx - w / 2, y = cy - h / 2, rect_w = w, rect_h = h\<rparr>"

definition targetCells :: "Rect \<Rightarrow> (int \<times> int) list" where
  "targetCells pRect =
     (let leftCol = \<lfloor>x pRect / TILE_SIZE\<rfloor>;
          rightCol = \<lfloor>(x pRect + rect_w pRect - 1 / 100) / TILE_SIZE\<rfloor>;
          topRow = \<lfloor>y pRect / TILE_SIZE\<rfloor>;
          bottomRow = \<lfloor>(y pRect + rect_h pRect - 1 / 100) / TILE_SIZE\<rfloor>
      in coveredCells topRow bottomRow leftCol rightCol)"

definition isCollision ::
  "World \<Rightarrow> real \<Rightarrow> real \<Rightarrow> real \<Rightarrow> real \<Rightarrow> real \<Rightarrow> real \<Rightarrow> error + bool" where
  "isCollision s targetX targetY w h currentX currentY =
     (let pRect = entityRect targetX targetY w h;
          curRect = entityRect currentX currentY w h
      in case tileScan (mapRef s) (targetCells pRect) of
           Inl e \<Rightarrow> Inl e
         | Inr True \<Rightarrow> Inr True
         | Inr False \<Rightarrow> Inr (bombScan (bombsRef s) pRect curRect))"

subsection \<open>Bombs: placeBomb and explodeBomb\<close>

text \<open>\<^verbatim>\<open>xs.splice(i, 1)\<close> with \<open>0 \<le> i\<close>; an index past the end removes nothing.\<close>

definition splice1 :: "nat \<Rightarrow> 'a list \<Rightarrow> 'a list" where
  "splice1 i xs = take i xs @ drop (Suc i) xs"

definition cellOfBomb :: "Bomb \<Rightarrow> int \<times> int" where
  "cellOfBomb b = getGridPos (x b) (y b)"

text \<open>\<open>now\<close> is the value \<^verbatim>\<open>Date.now()\<close> returns during the tick; it only fills the id fields.\<close>

definition placeBomb :: "int \<Rightarrow> World \<Rightarrow> World" where
  "placeBomb now s =
     (let player = playerRef s
      in if bombCount player \<ge> maxBombs player then s
         else
           let gridPos = getGridPos (x player) (y player);
               bombX = of_int (snd gridPos) * TILE_SIZE + TILE_SIZE / 2;
               bombY = of_int (fst gridPos) * TILE_SIZE + TILE_SIZE / 2;
               exists = list_ex (\<lambda>b. fst (cellOfBomb b) = fst gridPos \<and> snd (cellOfBomb b) = snd gridPos)
                          (bombsRef s)
           in if \<not> exists
              then s\<lparr>bombsRef := bombsRef s @
                        [\<lparr>x = bombX, y = bombY, bomb_id = now, bomb_timer = BOMB_TIMER_MS,
                          bomb_range = blastRadius player, ownerId = ''player''\<rparr>],
                      playerRef := player\<lparr>bombCount := bombCount player + 1\<rparr>\<rparr>
              else s)"

text \<open>The write \<^verbatim>\<open>mapRef.current[r][c] = v\<close> at a position that was just read.\<close>

definition setTile :: "TileType list list \<Rightarrow> int \<Rightarrow> int \<Rightarrow> TileType \<Rightarrow> TileType list list" where
  "setTile m r c v = m[nat r := (m ! nat r)[nat c := v]]"

text \<open>
  One ray of the blast: the loop \<^verbatim>\<open>for (let i = 1; i <= bomb.range; i++)\<close> for the direction
  \<open>d = (dr, dc)\<close>, on the map and the particle list built so far. Each \<^verbatim>\<open>break\<close> returns
  the pair as it stands.
\<close>

function rayLoop ::
  "int \<times> int \<Rightarrow> int \<times> int \<Rightarrow> int \<Rightarrow> int \<Rightarrow> TileType list list \<times> Point list
     \<Rightarrow> error + TileType list list \<times> Point list" where
  "rayLoop center d rng i (m, ps) =
     (if i \<le> rng then
        let r = fst center + fst d * i;
            c = snd center + snd d * i
        in if r < 0 \<or> r \<ge> GRID_ROWS \<or> c < 0 \<or> c \<ge> GRID_COLS then Inr (m, ps)
           else case tileAt m r c of
                  Inl e \<Rightarrow> Inl e
                | Inr tile \<Rightarrow>
                    if tile = Some HardWall then Inr (m, ps)
                    else let ps' = ps @ [\<lparr>x = of_int c, y = of_int r\<rparr>]
                         in if tile = Some SoftWall then Inr (setTile m r c Empty, ps')
                            else rayLoop center d rng (i + 1) (m, ps')
      else Inr (m, ps))"
  by pat_completeness auto
termination
  by (relation "measure (\<lambda>(center, d, rng, i, mp). nat (rng + 1 - i))") auto

declare rayLoop.simps [simp del]

definition dirs :: "(int \<times> int) list" where
  "dirs = [(-1, 0), (1, 0), (0, -1), (0, 1)]"

fun raysForEach ::
  "int \<times> int \<Rightarrow> int \<Rightarrow> (int \<times> int) list \<Rightarrow> TileType list list \<times> Point list
     \<Rightarrow> error + TileType list list \<times> Point list" where
  "raysForEach center rng [] acc = Inr acc"
| "raysForEach center rng (d # ds) acc =
     (case rayLoop center d rng 1 acc of
        Inl e \<Rightarrow> Inl e
      | Inr acc' \<Rightarrow> raysForEach center rng ds acc')"

definition withAlpha :: "Point \<Rightarrow> ExplosionParticle" where
  "withAlpha p = \<lparr>x = x p, y = y p, alpha = 1\<rparr>"

text \<open>
  \<^verbatim>\<open>explodeBomb(bomb, index)\<close>. The touch revision decrements the player's count for every
  bomb, the keyboard revision only when \<^verbatim>\<open>bomb.ownerId === 'player'\<close>. A TypeError leaves
  the tick; the state it leaves behind is not modelled.
\<close>

definition explodeBomb :: "revision \<Rightarrow> int \<Rightarrow> Bomb \<Rightarrow> nat \<Rightarrow> World \<Rightarrow> error + World" where
  "explodeBomb rv now bomb index s =
     (let s1 = s\<lparr>bombsRef := splice1 index (bombsRef s)\<rparr>;
          s2 = (if rv = Touch \<or> ownerId bomb = ''player''
                then s1\<lparr>playerRef := (playerRef s1)\<lparr>bombCount := bombCount (playerRef s1) - 1\<rparr>\<rparr>
                else s1);
          center = getGridPos (x bomb) (y bomb);
          particles0 = [\<lparr>x = of_int (snd center), y = of_int (fst center)\<rparr>]
      in case raysForEach center (bomb_range bomb) dirs (mapRef s2, particles0) of
           Inl e \<Rightarrow> Inl e
         | Inr (m, ps) \<Rightarrow>
             Inr (s2\<lparr>mapRef := m,
                     explosionsRef := explosionsRef s2 @
                       [\<lparr>explosion_id = now, particles = map withAlpha ps,
                         explosion_timer = EXPLOSION_DURATION_MS\<rparr>]\<rparr>))"

subsection \<open>The update loop\<close>

definition hypot :: "real \<Rightarrow> real \<Rightarrow> real" where
  "hypot a b = sqrt (a\<^sup>2 + b\<^sup>2)"

text \<open>The desired step \<open>(dx, dy)\<close> of the player, from the held keys; a diagonal is normalised.\<close>

definition desiredStep :: "Inputs \<Rightarrow> real \<Rightarrow> real \<times> real" where
  "desiredStep inputs spd =
     (let dy1 = (if ArrowUp inputs then 0 - spd else 0);
          dy2 = (if ArrowDown inputs then dy1 + spd else dy1);
          dx1 = (if ArrowLeft inputs then 0 - spd else 0);
          dx2 = (if ArrowRight inputs then dx1 + spd else dx1)
      in if dx2 \<noteq> 0 \<and> dy2 \<noteq> 0
         then let len = hypot dx2 dy2 in ((dx2 / len) * spd, (dy2 / len) * spd)
         else (dx2, dy2))"

text \<open>
  The horizontal move with the corner slide. In the touch revision the second branch of the
  slide is a plain \<^verbatim>\<open>else\<close>, in the keyboard revision it is \<^verbatim>\<open>else if (offset < 0)\<close>.
\<close>

definition movePlayerX :: "revision \<Rightarrow> real \<Rightarrow> World \<Rightarrow> error + World" where
  "movePlayerX rv dx s =
     (let player = playerRef s;
          nextX = x player + dx
      in case isCollision s nextX (y player) (width player) (height player) (x player) (y player) of
           Inl e \<Rightarrow> Inl e
         | Inr False \<Rightarrow> Inr (s\<lparr>playerRef := player\<lparr>x := nextX\<rparr>\<rparr>)
         | Inr True \<Rightarrow>
             let gridY = \<lfloor>y player / TILE_SIZE\<rfloor>;
                 centerY = of_int gridY * TILE_SIZE + TILE_SIZE / 2;
                 offset = y player - centerY
             in if \<bar>offset\<bar> < 20 then
                  if offset > 0 then
                    (case isCollision s nextX (y player - speed player) (width player) (height player)
                            (x player) (y player) of
                       Inl e \<Rightarrow> Inl e
                     | Inr b \<Rightarrow>
                         Inr (if \<not> b then s\<lparr>playerRef := player\<lparr>y := y player - speed player\<rparr>\<rparr> else s))
                  else if rv = Touch \<or> offset < 0 then
                    (case isCollision s nextX (y player + speed player) (width player) (height player)
                            (x player) (y player) of
                       Inl e \<Rightarrow> Inl e
                     | Inr b \<Rightarrow>
                         Inr (if \<not> b then s\<lparr>playerRef := player\<lparr>y := y player + speed player\<rparr>\<rparr> else s))
                  else Inr s
                else Inr s)"

definition movePlayerY :: "revision \<Rightarrow> real \<Rightarrow> World \<Rightarrow> error + World" where
  "movePlayerY rv dy s =
     (let player = playerRef s;
          nextY = y player + dy
      in case isCollision s (x player) nextY (width player) (height player) (x player) (y player) of
           Inl e \<Rightarrow> Inl e
         | Inr False \<Rightarrow> Inr (s\<lparr>playerRef := player\<lparr>y := nextY\<rparr>\<rparr>)
         | Inr True \<Rightarrow>
             let gridX = \<lfloor>x player / TILE_SIZE\<rfloor>;
                 centerX = of_int gridX * TILE_SIZE + TILE_SIZE / 2;
                 offset = x player - centerX
             in if \<bar>offset\<bar> < 20 then
                  if offset > 0 then
                    (case isCollision s (x player - speed player) nextY (width player) (height player)
                            (x player) (y player) of
                       Inl e \<Rightarrow> Inl e
                     | Inr b \<Rightarrow>
                         Inr (if \<not> b then s\<lparr>playerRef := player\<lparr>x := x player - speed player\<rparr>\<rparr> else s))
                  else if rv = Touch \<or> offset < 0 then
                    (case isCollision s (x player + speed player) nextY (width player) (height player)
                            (x player) (y player) of
                       Inl e \<Rightarrow> Inl e
                     | Inr b \<Rightarrow>
                         Inr (if \<not> b then s\<lparr>playerRef := player\<lparr>x := x player + speed player\<rparr>\<rparr> else s))
                  else Inr s
                else Inr s)"

text \<open>
  The bomb loop \<^verbatim>\<open>for (let i = bombs.length - 1; i >= 0; i--)\<close>: \<open>bombsLoop \<dots> n\<close> runs the
  iterations \<open>i = n - 1, \<dots>, 0\<close>, and \<^verbatim>\<open>update\<close> starts it at \<open>n = length\<close>.
\<close>

fun bombsLoop :: "revision \<Rightarrow> real \<Rightarrow> int \<Rightarrow> nat \<Rightarrow> World \<Rightarrow> error + World" where
  "bombsLoop rv dt now 0 s = Inr s"
| "bombsLoop rv dt now (Suc i) s =
     (let b = (bombsRef s ! i)\<lparr>bomb_timer := bomb_timer (bombsRef s ! i) - dt\<rparr>;
          s1 = s\<lparr>bombsRef := (bombsRef s)[i := b]\<rparr>
      in if bomb_timer b \<le> 0
         then (case explodeBomb rv now b i s1 of
                 Inl e \<Rightarrow> Inl e
               | Inr s2 \<Rightarrow> bombsLoop rv dt now i s2)
         else bombsLoop rv dt now i s1)"

text \<open>The inner loop of the hit test: enemies in the particle's cell are spliced out.\<close>

fun enemyHitLoop :: "ExplosionParticle \<Rightarrow> nat \<Rightarrow> World \<Rightarrow> World" where
  "enemyHitLoop p 0 s = s"
| "enemyHitLoop p (Suc ei) s =
     (let eGrid = getGridPos (x (enemiesRef s ! ei)) (y (enemiesRef s ! ei))
      in enemyHitLoop p ei
           (if of_int (fst eGrid) = y p \<and> of_int (snd eGrid) = x p
            then s\<lparr>enemiesRef := splice1 ei (enemiesRef s)\<rparr>
            else s))"

definition hitParticle :: "World \<Rightarrow> ExplosionParticle \<Rightarrow> World" where
  "hitParticle s p =
     (let player = playerRef s;
          pGrid = getGridPos (x player) (y player);
          s1 = (if of_int (fst pGrid) = y p \<and> of_int (snd pGrid) = x p
                then s\<lparr>playerRef := player\<lparr>alive := False\<rparr>, gameStatus := Lost\<rparr>
                else s)
      in enemyHitLoop p (length (enemiesRef s1)) s1)"

fun explosionsLoop :: "real \<Rightarrow> nat \<Rightarrow> World \<Rightarrow> World" where
  "explosionsLoop dt 0 s = s"
| "explosionsLoop dt (Suc i) s =
     (let expl = (explosionsRef s ! i)\<lparr>explosion_timer := explosion_timer (explosionsRef s ! i) - dt\<rparr>;
          s1 = s\<lparr>explosionsRef := (explosionsRef s)[i := expl]\<rparr>
      in if explosion_timer expl \<le> 0
         then explosionsLoop dt i (s1\<lparr>explosionsRef := splice1 i (explosionsRef s1)\<rparr>)
         else explosionsLoop dt i (foldl hitParticle s1 (particles expl)))"

text \<open>
  Enemies. \<open>rnd\<close> is the sequence of values \<^verbatim>\<open>Math.random()\<close> returns during the tick (each in
  \<open>[0, 1)\<close> by its contract) and \<open>k\<close> counts the calls made so far.
\<close>

definition enemyDirs :: "Point list" where
  "enemyDirs = [\<lparr>x = 0, y = -1\<rparr>, \<lparr>x = 0, y = 1\<rparr>, \<lparr>x = -1, y = 0\<rparr>, \<lparr>x = 1, y = 0\<rparr>]"

definition randomDir :: "real \<Rightarrow> Point" where
  "randomDir u = enemyDirs ! nat \<lfloor>u * of_nat (length enemyDirs)\<rfloor>"

definition wanderProbability :: "revision \<Rightarrow> real" where
  "wanderProbability rv = (case rv of Touch \<Rightarrow> 2 / 100 | Keyboard \<Rightarrow> 1 / 100)"

definition enemyStep ::
  "revision \<Rightarrow> (nat \<Rightarrow> real) \<Rightarrow> nat \<Rightarrow> Enemy \<Rightarrow> World \<Rightarrow> error + Enemy \<times> nat \<times> World" where
  "enemyStep rv rnd k enemy s =
     (let player = playerRef s;
          dist = hypot (x player - x enemy) (y player - y enemy);
          s1 = (if dist < TILE_SIZE * (7 / 10)
                then s\<lparr>playerRef := player\<lparr>alive := False\<rparr>, gameStatus := Lost\<rparr>
                else s);
          nextX = x enemy + x (direction enemy) * enemy_speed enemy;
          nextY = y enemy + y (direction enemy) * enemy_speed enemy
      in case isCollision s1 nextX nextY (width enemy) (height enemy) (x enemy) (y enemy) of
           Inl e \<Rightarrow> Inl e
         | Inr blocked \<Rightarrow>
             let (enemy1, k1) = (if blocked then (enemy\<lparr>direction := randomDir (rnd k)\<rparr>, k + 1)
                                 else (enemy\<lparr>x := nextX, y := nextY\<rparr>, k))
             in if rnd k1 < wanderProbability rv
                then Inr (enemy1\<lparr>direction := randomDir (rnd (k1 + 1))\<rparr>, k1 + 2, s1)
                else Inr (enemy1, k1 + 1, s1))"

text \<open>
  \<^verbatim>\<open>enemiesRef.current.forEach\<close>: the callback changes the visited enemy in place, the player
  and the status; it reads the map and the bombs only, so the list is rebuilt element by
  element.
\<close>

fun enemiesForEach ::
  "revision \<Rightarrow> (nat \<Rightarrow> real) \<Rightarrow> nat \<Rightarrow> Enemy list \<Rightarrow> World \<Rightarrow> error + Enemy list \<times> World" where
  "enemiesForEach rv rnd k [] s = Inr ([], s)"
| "enemiesForEach rv rnd k (enemy # es) s =
     (case enemyStep rv rnd k enemy s of
        Inl e \<Rightarrow> Inl e
      | Inr (enemy', k', s') \<Rightarrow>
          (case enemiesForEach rv rnd k' es s' of
             Inl e \<Rightarrow> Inl e
           | Inr (es', s'') \<Rightarrow> Inr (enemy' # es', s'')))"

text \<open>
  \<^verbatim>\<open>update(dt)\<close>. The test \<^verbatim>\<open>gameStatus === GameStatus.Playing\<close> of the last statement
  reads the closure's constant, that is the status \<open>gameStatus s\<close> the tick started with, not
  what \<^verbatim>\<open>setGameStatus\<close> has written since.
\<close>

definition update :: "revision \<Rightarrow> real \<Rightarrow> (nat \<Rightarrow> real) \<Rightarrow> int \<Rightarrow> World \<Rightarrow> error + World" where
  "update rv dt rnd now s =
     (if gameStatus s \<noteq> Playing then Inr s
      else
        let (dx, dy) = desiredStep (inputsRef s) (speed (playerRef s))
        in case (if dx \<noteq> 0 then movePlayerX rv dx s else Inr s) of
             Inl e \<Rightarrow> Inl e
           | Inr s1 \<Rightarrow>
          (case (if dy \<noteq> 0 then movePlayerY rv dy s1 else Inr s1) of
             Inl e \<Rightarrow> Inl e
           | Inr s2 \<Rightarrow>
          (let s3 = (if Space (inputsRef s2)
                     then (placeBomb now s2)\<lparr>inputsRef := (inputsRef s2)\<lparr>Space := False\<rparr>\<rparr>
                     else s2)
           in case bombsLoop rv dt now (length (bombsRef s3)) s3 of
                Inl e \<Rightarrow> Inl e
              | Inr s4 \<Rightarrow>
             (let s5 = explosionsLoop dt (length (explosionsRef s4)) s4
              in case enemiesForEach rv rnd 0 (enemiesRef s5) s5 of
                   Inl e \<Rightarrow> Inl e
                 | Inr (es, s6) \<Rightarrow>
                     (let s7 = s6\<lparr>enemiesRef := es\<rparr>
                      in Inr (if enemiesRef s7 = [] \<and> gameStatus s = Playing
                              then s7\<lparr>gameStatus := Won\<rparr>
                              else s7))))))"

subsection \<open>Round start: initGame\<close>

text \<open>
  One cell of the generated map, with the number of \<^verbatim>\<open>Math.random()\<close> calls made so far.
  The safe zone is tested in the \<^verbatim>\<open>else\<close> branch only, and the random number is drawn
  only outside it.
\<close>

definition isSafeZone :: "revision \<Rightarrow> nat \<Rightarrow> nat \<Rightarrow> bool" where
  "isSafeZone rv r c =
     (case rv of
        Touch \<Rightarrow> r < 3 \<and> c < 3
      | Keyboard \<Rightarrow> (r = 1 \<and> c = 1) \<or> (r = 1 \<and> c = 2) \<or> (r = 2 \<and> c = 1))"

definition forcedWall :: "nat \<Rightarrow> nat \<Rightarrow> bool" where
  "forcedWall r c =
     (r = 0 \<or> int r = GRID_ROWS - 1 \<or> c = 0 \<or> int c = GRID_COLS - 1 \<or> (r mod 2 = 0 \<and> c mod 2 = 0))"

definition genCell :: "revision \<Rightarrow> (nat \<Rightarrow> real) \<Rightarrow> nat \<Rightarrow> nat \<Rightarrow> nat \<Rightarrow> TileType \<times> nat" where
  "genCell rv rnd r c k =
     (if forcedWall r c then (HardWall, k)
      else if \<not> isSafeZone rv r c
           then (if rnd k < 3 / 10 then (SoftWall, k + 1) else (Empty, k + 1))
           else (Empty, k))"

definition genRow :: "revision \<Rightarrow> (nat \<Rightarrow> real) \<Rightarrow> nat \<Rightarrow> nat \<Rightarrow> nat \<Rightarrow> TileType list \<times> nat" where
  "genRow rv rnd r n k =
     foldl (\<lambda>(row, k) c. let (t, k') = genCell rv rnd r c k in (row @ [t], k')) ([], k) [0..<n]"

definition genMap :: "revision \<Rightarrow> (nat \<Rightarrow> real) \<Rightarrow> nat \<Rightarrow> TileType list list \<times> nat" where
  "genMap rv rnd n =
     foldl (\<lambda>(m, k) r. let (row, k') = genRow rv rnd r (nat GRID_COLS) k in (m @ [row], k')) ([], 0) [0..<n]"

definition newPlayer :: "revision \<Rightarrow> Player" where
  "newPlayer rv =
     \<lparr>x = TILE_SIZE * (3 / 2), y = TILE_SIZE * (3 / 2), width = HITBOX_SIZE, height = HITBOX_SIZE,
      alive = True, speed = (case rv of Touch \<Rightarrow> 4 | Keyboard \<Rightarrow> 7 / 2),
      bombCount = 0, maxBombs = 3, blastRadius = 2\<rparr>"

definition newEnemy :: "real \<Rightarrow> int \<Rightarrow> int \<Rightarrow> Enemy" where
  "newEnemy ident r c =
     \<lparr>x = of_int c * TILE_SIZE + TILE_SIZE / 2, y = of_int r * TILE_SIZE + TILE_SIZE / 2,
      width = HITBOX_SIZE, height = HITBOX_SIZE, enemy_id = ident, enemy_alive = True,
      enemy_speed = 2, direction = \<lparr>x = 1, y = 0\<rparr>, changeDirTimer = 0\<rparr>"

text \<open>
  The spawn loop. The touch revision runs \<^verbatim>\<open>while (enemyCount > 0)\<close>, the keyboard revision
  \<^verbatim>\<open>while (enemyCount > 0 && attempts < 100)\<close>; with random numbers that never hit a free
  cell the first does not return, which is the value \<open>None\<close>.
\<close>

partial_function (option) spawnLoop ::
  "revision \<Rightarrow> TileType list list \<Rightarrow> (nat \<Rightarrow> real) \<Rightarrow> nat \<Rightarrow> int \<Rightarrow> int \<Rightarrow> Enemy list
     \<Rightarrow> (error + Enemy list) option" where
  "spawnLoop rv newMap rnd k enemyCount attempts enemies =
     (if enemyCount > 0 \<and> (rv = Touch \<or> attempts < 100) then
        let r = \<lfloor>rnd k * of_int (GRID_ROWS - 2)\<rfloor> + 1;
            c = \<lfloor>rnd (k + 1) * of_int (GRID_COLS - 2)\<rfloor> + 1
        in case tileAt newMap r c of
             Inl e \<Rightarrow> Some (Inl e)
           | Inr t \<Rightarrow>
               if t = Some Empty \<and> (r > 4 \<or> c > 4)
               then spawnLoop rv newMap rnd (k + 3) (enemyCount - 1) (attempts + 1)
                      (enemies @ [newEnemy (rnd (k + 2)) r c])
               else spawnLoop rv newMap rnd (k + 2) enemyCount (attempts + 1) enemies
      else Some (Inr enemies))"

definition initGame :: "revision \<Rightarrow> (nat \<Rightarrow> real) \<Rightarrow> World \<Rightarrow> (error + World) option" where
  "initGame rv rnd s =
     (let (newMap, k) = genMap rv rnd (nat GRID_ROWS)
      in case spawnLoop rv newMap rnd k (case rv of Touch \<Rightarrow> 4 | Keyboard \<Rightarrow> 3) 0 [] of
           None \<Rightarrow> None
         | Some (Inl e) \<Rightarrow> Some (Inl e)
         | Some (Inr enemies) \<Rightarrow>
             Some (Inr (s\<lparr>mapRef := newMap, playerRef := newPlayer rv, enemiesRef := enemies,
                          bombsRef := [], explosionsRef := [], gameStatus := Playing\<rparr>)))"

subsection \<open>Reachable states\<close>

text \<open>
  A state is reachable when a round start produced it, or a tick or a change of the held
  keys from a reachable state did. A round start may follow any state (the START and RETRY
  buttons), so restarts are covered.
\<close>

inductive reachable :: "revision \<Rightarrow> World \<Rightarrow> bool" for rv :: revision where
  start: "initGame rv rnd s = Some (Inr s') \<Longrightarrow> reachable rv s'"
| tick: "reachable rv s \<Longrightarrow> update rv dt rnd now s = Inr s' \<Longrightarrow> reachable rv s'"
| keys: "reachable rv s \<Longrightarrow> reachable rv (s\<lparr>inputsRef := inputs\<rparr>)"

text \<open>A run of ticks, each with its own delta-time, random numbers and clock reading.\<close>

fun ticks :: "revision \<Rightarrow> (real \<times> (nat \<Rightarrow> real) \<times> int) list \<Rightarrow> World \<Rightarrow> error + World" where
  "ticks rv [] s = Inr s"
| "ticks rv ((dt, rnd, now) # rest) s =
     (case update rv dt rnd now s of
        Inl e \<Rightarrow> Inl e
      | Inr s' \<Rightarrow> ticks rv rest s')"

text \<open>The outer border of the grid, in the words of the specification.\<close>

definition onBorder :: "nat \<Rightarrow> nat \<Rightarrow> bool" where
  "onBorder r c = (r = 0 \<or> r = 14 \<or> c = 0 \<or> c = 14)"

subsection \<open>The map reads of the tile scan\<close>

text \<open>
  The cells at which \<open>tileScan\<close> evaluates \<^verbatim>\<open>mapRef.current[r][c]\<close>, in order: the same
  loop, logging each read instead of returning the verdict.
\<close>

fun tileReads :: "TileType list list \<Rightarrow> (int \<times> int) list \<Rightarrow> (int \<times> int) list" where
  "tileReads m [] = []"
| "tileReads m ((r, c) # rest) =
     (if r < 0 \<or> r \<ge> GRID_ROWS \<or> c < 0 \<or> c \<ge> GRID_COLS then []
      else (r, c) # (case tileAt m r c of
                       Inl e \<Rightarrow> []
                     | Inr t \<Rightarrow> if t \<noteq> Some Empty then [] else tileReads m rest))"

subsection \<open>The bookkeeping invariant of the bombs\<close>

text \<open>
  What every reachable state satisfies: the map has the generated size, every live bomb was
  placed by the player, the player's count is the number of live bombs, no two live bombs
  share a cell, and the count is at most \<open>maxBombs\<close>.
\<close>

definition bombInv :: "World \<Rightarrow> bool" where
  "bombInv s =
     (wfGrid (mapRef s) \<and>
      (\<forall>b\<in>set (bombsRef s). ownerId b = ''player'') \<and>
      bombCount (playerRef s) = int (length (bombsRef s)) \<and>
      distinct (map cellOfBomb (bombsRef s)) \<and>
      bombCount (playerRef s) \<le> maxBombs (playerRef s))"

subsection \<open>The phases of a tick\<close>

text \<open>
  The first two parts of \<open>update\<close> under their own names: the player's move along both axes,
  and the bomb key.
\<close>

definition playerPhase :: "revision \<Rightarrow> World \<Rightarrow> error + World" where
  "playerPhase rv s =
     (let (dx, dy) = desiredStep (inputsRef s) (speed (playerRef s))
      in case (if dx \<noteq> 0 then movePlayerX rv dx s else Inr s) of
           Inl e \<Rightarrow> Inl e
         | Inr s1 \<Rightarrow> (if dy \<noteq> 0 then movePlayerY rv dy s1 else Inr s1))"

definition bombPhase :: "int \<Rightarrow> World \<Rightarrow> World" where
  "bombPhase now s2 =
     (if Space (inputsRef s2)
      then (placeBomb now s2)\<lparr>inputsRef := (inputsRef s2)\<lparr>Space := False\<rparr>\<rparr>
      else s2)"

text \<open>What one tick does to the timer of a bomb and of an explosion that survive it.\<close>

definition tickBomb :: "real \<Rightarrow> Bomb \<Rightarrow> Bomb" where
  "tickBomb dt b = b\<lparr>bomb_timer := bomb_timer b - dt\<rparr>"

definition tickExplosion :: "real \<Rightarrow> Explosion \<Rightarrow> Explosion" where
  "tickExplosion dt e = e\<lparr>explosion_timer := explosion_timer e - dt\<rparr>"

text \<open>
  What one tick does to the position of an enemy: it stays, or it advances by its direction
  times its speed.
\<close>

definition enemyMoved :: "Enemy \<Rightarrow> Enemy \<Rightarrow> bool" where
  "enemyMoved e e' =
     ((x e' = x e \<and> y e' = y e) \<or>
      (x e' = x e + x (direction e) * enemy_speed e \<and>
       y e' = y e + y (direction e) * enemy_speed e))"

subsection \<open>The blast in the words of the specification\<close>

text \<open>
  The \<open>i\<close>-th cell of the ray cast from \<open>center\<close> in direction \<open>d\<close>, and the cells of the ray
  out to the range.
\<close>

definition rayCell :: "int \<times> int \<Rightarrow> int \<times> int \<Rightarrow> int \<Rightarrow> int \<times> int" where
  "rayCell center d i = (fst center + fst d * i, snd center + snd d * i)"

definition rayCells :: "int \<times> int \<Rightarrow> int \<times> int \<Rightarrow> int \<Rightarrow> (int \<times> int) list" where
  "rayCells center d rng = map (rayCell center d) [1..rng]"

text \<open>
  The specification's rule for one ray, on the map as it is when the bomb detonates: cells
  are added in order outward until the ray leaves the grid (stop, cell not added), meets a
  HardWall (stop, cell not added) or meets a SoftWall (cell added, stop); an Empty cell is
  added and the ray goes on.
\<close>

fun spec_ray :: "TileType list list \<Rightarrow> (int \<times> int) list \<Rightarrow> (int \<times> int) list" where
  "spec_ray m [] = []"
| "spec_ray m ((r, c) # rest) =
     (if \<not> inGrid r c then []
      else case m ! nat r ! nat c of
             HardWall \<Rightarrow> []
           | SoftWall \<Rightarrow> [(r, c)]
           | Empty \<Rightarrow> (r, c) # spec_ray m rest)"

text \<open>The particle cells of a detonation: the center once, then the four rays.\<close>

definition spec_blast :: "TileType list list \<Rightarrow> int \<times> int \<Rightarrow> int \<Rightarrow> (int \<times> int) list" where
  "spec_blast m center rng = center # concat (map (\<lambda>d. spec_ray m (rayCells center d rng)) dirs)"

definition blastOf :: "World \<Rightarrow> Bomb \<Rightarrow> (int \<times> int) list" where
  "blastOf s bomb = spec_blast (mapRef s) (getGridPos (x bomb) (y bomb)) (bomb_range bomb)"

definition pointOf :: "int \<times> int \<Rightarrow> Point" where
  "pointOf cell = \<lparr>x = of_int (snd cell), y = of_int (fst cell)\<rparr>"

definition particleAt :: "int \<Rightarrow> int \<Rightarrow> ExplosionParticle" where
  "particleAt r c = \<lparr>x = of_int c, y = of_int r, alpha = 1\<rparr>"

definition cellParticle :: "int \<times> int \<Rightarrow> ExplosionParticle" where
  "cellParticle cell = particleAt (fst cell) (snd cell)"

definition openCell :: "TileType list list \<Rightarrow> int \<times> int \<Rightarrow> bool" where
  "openCell m cell = (inGrid (fst cell) (snd cell) \<and> m ! nat (fst cell) ! nat (snd cell) = Empty)"

definition addableCell :: "TileType list list \<Rightarrow> int \<times> int \<Rightarrow> bool" where
  "addableCell m cell = (inGrid (fst cell) (snd cell) \<and> m ! nat (fst cell) ! nat (snd cell) \<noteq> HardWall)"

subsection \<open>Life and status\<close>

text \<open>
  What the explosion and enemy phases of a tick keep true: the player is alive and nothing
  has written the status, or the player is dead and the last write was Lost.
\<close>

definition lifeStatus :: "World \<Rightarrow> bool" where
  "lifeStatus s =
     ((alive (playerRef s) \<and> gameStatus s = Playing) \<or>
      (\<not> alive (playerRef s) \<and> gameStatus s = Lost))"

subsection \<open>Concrete states used to exercise the theorems\<close>

definition noKeys :: Inputs where
  "noKeys = \<lparr>ArrowUp = False, ArrowDown = False, ArrowLeft = False, ArrowRight = False, Space = False\<rparr>"

definition lostWorld :: World where
  "lostWorld =
     \<lparr>mapRef = [], playerRef = (newPlayer Keyboard)\<lparr>alive := False\<rparr>, bombsRef = [],
      explosionsRef = [], enemiesRef = [],
      inputsRef = noKeys\<lparr>ArrowUp := True, ArrowRight := True, Space := True\<rparr>,
      gameStatus = Lost\<rparr>"

text \<open>The map the generator builds when no random number is below 0.3: pillars and border only.\<close>

definition openArena :: "TileType list list" where
  "openArena = map (\<lambda>r. map (\<lambda>c. if forcedWall r c then HardWall else Empty) [0..<15]) [0..<15]"

definition bombAt :: "int \<Rightarrow> int \<Rightarrow> real \<Rightarrow> Bomb" where
  "bombAt r c t =
     \<lparr>x = of_int c * TILE_SIZE + TILE_SIZE / 2, y = of_int r * TILE_SIZE + TILE_SIZE / 2,
      bomb_id = 0, bomb_timer = t, bomb_range = 2, ownerId = ''player''\<rparr>"

text \<open>The player on its spawn cell (1, 1), standing on a bomb it has just placed there.\<close>

definition arenaWorld :: World where
  "arenaWorld =
     \<lparr>mapRef = openArena, playerRef = (newPlayer Keyboard)\<lparr>bombCount := 1\<rparr>,
      bombsRef = [bombAt 1 1 3000], explosionsRef = [], enemiesRef = [], inputsRef = noKeys,
      gameStatus = Playing\<rparr>"

text \<open>The state the component mounts with, before the first round.\<close>

definition menuWorld :: World where
  "menuWorld =
     \<lparr>mapRef = [],
      playerRef = \<lparr>x = TILE_SIZE, y = TILE_SIZE, width = HITBOX_SIZE, height = HITBOX_SIZE,
                   alive = True, speed = 7 / 2, bombCount = 0, maxBombs = 3, blastRadius = 2\<rparr>,
      bombsRef = [], explosionsRef = [], enemiesRef = [], inputsRef = noKeys, gameStatus = Menu\<rparr>"

text \<open>
  The round \<^verbatim>\<open>initGame\<close> starts from it in the keyboard revision when every random number
  is 0.5: no rubble, and the three enemies on cell (7, 7).
\<close>

definition startWorld :: World where
  "startWorld =
     \<lparr>mapRef = openArena, playerRef = newPlayer Keyboard, bombsRef = [], explosionsRef = [],
      enemiesRef = replicate 3 (newEnemy (1 / 2) 7 7), inputsRef = noKeys, gameStatus = Playing\<rparr>"

text \<open>One tick (16 ms) later, with the bomb key held: a bomb lies under the player.\<close>

definition bombWorld :: World where
  "bombWorld =
     \<lparr>mapRef = openArena, playerRef = (newPlayer Keyboard)\<lparr>bombCount := 1\<rparr>,
      bombsRef = [(bombAt 1 1 2984)\<lparr>bomb_id := 1000\<rparr>], explosionsRef = [],
      enemiesRef = replicate 3 ((newEnemy (1 / 2) 7 7)\<lparr>x := 362\<rparr>), inputsRef = noKeys,
      gameStatus = Playing\<rparr>"

text \<open>The state after that bomb has detonated.\<close>

definition blastWorld :: World where
  "blastWorld =
     \<lparr>mapRef = openArena, playerRef = newPlayer Keyboard, bombsRef = [],
      explosionsRef = [\<lparr>explosion_id = 2000,
                        particles = [particleAt 1 1, particleAt 2 1, particleAt 3 1, particleAt 1 2, particleAt 1 3],
                        explosion_timer = 600\<rparr>],
      enemiesRef = replicate 3 ((newEnemy (1 / 2) 7 7)\<lparr>x := 362\<rparr>), inputsRef = noKeys,
      gameStatus = Playing\<rparr>"

text \<open>Scenario A: a SoftWall at (2, 1), one cell north of a bomb at (3, 1) that is due.\<close>

definition rubbleArena :: "TileType list list" where
  "rubbleArena = setTile openArena 2 1 SoftWall"

definition rubbleWorld :: World where
  "rubbleWorld =
     \<lparr>mapRef = rubbleArena, playerRef = (newPlayer Keyboard)\<lparr>bombCount := 1\<rparr>,
      bombsRef = [bombAt 3 1 0], explosionsRef = [], enemiesRef = [], inputsRef = noKeys,
      gameStatus = Playing\<rparr>"

text \<open>The started round with the right key held, and the state one tick later.\<close>

definition halfRnd :: "nat \<Rightarrow> real" where
  "halfRnd k = 1 / 2"

definition walkStart :: World where
  "walkStart = startWorld\<lparr>inputsRef := noKeys\<lparr>ArrowRight := True\<rparr>\<rparr>"

definition walkNext :: World where
  "walkNext =
     startWorld\<lparr>playerRef := (newPlayer Keyboard)\<lparr>x := 151 / 2\<rparr>,
                enemiesRef := replicate 3 ((newEnemy (1 / 2) 7 7)\<lparr>x := 362\<rparr>),
                inputsRef := noKeys\<lparr>ArrowRight := True\<rparr>\<rparr>"

text \<open>
  A round of the keyboard revision in which the player dies together with the last enemies.
  \<open>roundRnd\<close> are the random numbers of \<^verbatim>\<open>initGame\<close>: 0.5 for the 130 cells of the map
  that draw one (no rubble), then 0, 0.35, 0.35 for each spawn (row 1, column 5, the id).
  \<open>turnRnd\<close> makes every enemy turn upwards in the first tick; with \<open>calmRnd\<close> no enemy
  wanders, and a blocked enemy picks the upward direction again.
\<close>

definition roundRnd :: "nat \<Rightarrow> real" where
  "roundRnd k = (if k < 130 then 1 / 2 else if (k - 130) mod 3 = 0 then 0 else 7 / 20)"

definition turnRnd :: "nat \<Rightarrow> real" where
  "turnRnd k = (if even k then 0 else 1 / 10)"

definition calmRnd :: "nat \<Rightarrow> real" where
  "calmRnd k = 1 / 10"

definition raidStart :: World where
  "raidStart =
     \<lparr>mapRef = openArena, playerRef = newPlayer Keyboard, bombsRef = [], explosionsRef = [],
      enemiesRef = replicate 3 (newEnemy (7 / 20) 1 5), inputsRef = noKeys, gameStatus = Playing\<rparr>"

definition raidEnemy :: "real \<Rightarrow> Enemy" where
  "raidEnemy ey = (newEnemy (7 / 20) 1 5)\<lparr>x := 266, y := ey, direction := \<lparr>x = 0, y = -1\<rparr>\<rparr>"

text \<open>
  After \<open>n\<close> ticks with the right key held: the player has walked \<open>3.5 n\<close> pixels along
  row 1, and the three enemies have climbed to the top of cell (1, 5), where the border
  blocks them.
\<close>

definition raidWalk :: "nat \<Rightarrow> World" where
  "raidWalk n =
     \<lparr>mapRef = openArena, playerRef = (newPlayer Keyboard)\<lparr>x := 72 + 7 / 2 * real n\<rparr>,
      bombsRef = [], explosionsRef = [],
      enemiesRef = replicate 3 (raidEnemy (max 64 (74 - 2 * real n))),
      inputsRef = noKeys\<lparr>ArrowRight := True\<rparr>, gameStatus = Playing\<rparr>"

text \<open>
  After 21 such ticks and one tick of 2999 ms with the bomb key: the player stands in cell
  (1, 3) on its bomb, which has 1 ms left. \<open>doomResult\<close> is the state one more tick later.
\<close>

definition doomWorld :: World where
  "doomWorld =
     \<lparr>mapRef = openArena, playerRef = (newPlayer Keyboard)\<lparr>x := 291 / 2, bombCount := 1\<rparr>,
      bombsRef = [(bombAt 1 3 1)\<lparr>bomb_id := 4000\<rparr>], explosionsRef = [],
      enemiesRef = replicate 3 (raidEnemy 64), inputsRef = noKeys, gameStatus = Playing\<rparr>"

definition doomResult :: World where
  "doomResult =
     \<lparr>mapRef = openArena, playerRef = (newPlayer Keyboard)\<lparr>x := 291 / 2, alive := False\<rparr>,
      bombsRef = [],
      explosionsRef =
        [\<lparr>explosion_id = 5000,
          particles = map cellParticle [(1, 3), (2, 3), (3, 3), (1, 2), (1, 1), (1, 4), (1, 5)],
          explosion_timer = 599\<rparr>],
      enemiesRef = [], inputsRef = noKeys, gameStatus = Won\<rparr>"

section \<open>Verification\<close>

subsection \<open>The blocked-movement check\<close>

lemma bombScan_iff:
  "bombScan bs pRect curRect \<longleftrightarrow>
     (\<exists>b\<in>set bs. rectIntersect pRect (bombRect b) \<and> \<not> rectIntersect curRect (bombRect b))"
  by (induction bs) auto

lemma wfGrid_tileAt:
  "wfGrid m \<Longrightarrow> inGrid r c \<Longrightarrow> tileAt m r c = Inr (Some (m ! nat r ! nat c))"
  by (auto simp: wfGrid_def inGrid_def tileAt_def list_all_length Let_def)

lemma tileScan_wf: "wfGrid m \<Longrightarrow> \<exists>b. tileScan m cells = Inr b"
proof (induction cells)
  case Nil
  show ?case by auto
next
  case (Cons cell cells)
  obtain r c where cell: "cell = (r, c)" by (cases cell) auto
  show ?case
  proof (cases "inGrid r c")
    case True
    with Cons cell show ?thesis
      by (auto simp: wfGrid_tileAt inGrid_def)
  next
    case False
    with cell show ?thesis by (auto simp: inGrid_def)
  qed
qed

lemma tileScan_outside:
  "(r, c) \<in> set cells \<Longrightarrow> \<not> inGrid r c \<Longrightarrow> tileScan m cells \<noteq> Inr False"
proof (induction cells)
  case Nil
  then show ?case by simp
next
  case (Cons cell cells)
  obtain r' c' where cell: "cell = (r', c')" by (cases cell) auto
  with Cons show ?case
    by (auto simp: inGrid_def split: sum.splits)
qed

lemma tileReads_inGrid: "(r, c) \<in> set (tileReads m cells) \<Longrightarrow> inGrid r c"
proof (induction cells)
  case Nil
  then show ?case by simp
next
  case (Cons cell cells)
  obtain r' c' where cell: "cell = (r', c')" by (cases cell) auto
  with Cons show ?case
    by (auto simp: inGrid_def split: sum.splits if_splits)
qed

lemma openArena_tileAt:
  "0 \<le> r \<Longrightarrow> r < 15 \<Longrightarrow> 0 \<le> c \<Longrightarrow> c < 15 \<Longrightarrow>
   tileAt openArena r c = Inr (Some (if forcedWall (nat r) (nat c) then HardWall else Empty))"
  by (simp add: tileAt_def openArena_def)

lemma wfGrid_openArena: "wfGrid openArena"
  by (simp add: wfGrid_def openArena_def list_all_iff)

text \<open>
  C7. When the tile scan of the target rectangle gives the verdict \<open>t\<close>, the check answers
  \<open>t\<close> or "some live bomb blocks", and a bomb blocks exactly when the target rectangle
  overlaps its tile-sized rectangle and the entity's current rectangle does not overlap that
  same rectangle. The witness is scenario E: the player standing on its bomb may step off
  it, and a player in the next cell, clear of the bomb, is blocked when it steps towards it.
\<close>

theorem isCollision_bomb_rule:
  assumes "tileScan (mapRef s) (targetCells (entityRect tx ty w h)) = Inr t"
  shows "isCollision s tx ty w h cx cy =
           Inr (t \<or> (\<exists>b\<in>set (bombsRef s).
                  rectIntersect (entityRect tx ty w h) (bombRect b) \<and>
                  \<not> rectIntersect (entityRect cx cy w h) (bombRect b)))"
  using assms by (cases t) (simp_all add: isCollision_def bombScan_iff)

theorem isCollision_bomb_rule_witness:
  "tileScan (mapRef arenaWorld) (targetCells (entityRect 76 72 30 30)) = Inr False \<and>
   isCollision arenaWorld 76 72 30 30 72 72 = Inr False \<and>
   tileScan (mapRef arenaWorld) (targetCells (entityRect 110 72 30 30)) = Inr False \<and>
   isCollision arenaWorld 110 72 30 30 124 72 = Inr True"
proof -
  have t1: "tileScan (mapRef arenaWorld) (targetCells (entityRect 76 72 30 30)) = Inr False"
    by (simp add: arenaWorld_def targetCells_def entityRect_def coveredCells_def upto.simps
        openArena_tileAt forcedWall_def)
  have t2: "tileScan (mapRef arenaWorld) (targetCells (entityRect 110 72 30 30)) = Inr False"
    by (simp add: arenaWorld_def targetCells_def entityRect_def coveredCells_def upto.simps
        openArena_tileAt forcedWall_def)
  show ?thesis
    using isCollision_bomb_rule [OF t1, of 72 72] isCollision_bomb_rule [OF t2, of 124 72] t1 t2
    by (simp add: arenaWorld_def entityRect_def bombRect_def bombAt_def rectIntersect_def)
qed

text \<open>
  C8. On a map of the generated size the check never throws; every map read it makes is at
  a cell inside the grid; and when the target rectangle covers a cell outside
  \<open>[0, GRID_ROWS) \<times> [0, GRID_COLS)\<close> the answer is \<^verbatim>\<open>true\<close>.
\<close>

theorem isCollision_out_of_bounds:
  assumes "wfGrid (mapRef s)"
  shows "(\<exists>b. isCollision s tx ty w h cx cy = Inr b) \<and>
         (\<forall>(r, c) \<in> set (tileReads (mapRef s) (targetCells (entityRect tx ty w h))). inGrid r c) \<and>
         ((\<exists>(r, c) \<in> set (targetCells (entityRect tx ty w h)). \<not> inGrid r c) \<longrightarrow>
            isCollision s tx ty w h cx cy = Inr True)"
proof (intro conjI impI)
  obtain t where t: "tileScan (mapRef s) (targetCells (entityRect tx ty w h)) = Inr t"
    using tileScan_wf [OF assms] by blast
  then show "\<exists>b. isCollision s tx ty w h cx cy = Inr b"
    by (cases t) (auto simp: isCollision_def)
  show "\<forall>(r, c) \<in> set (tileReads (mapRef s) (targetCells (entityRect tx ty w h))). inGrid r c"
    using tileReads_inGrid by blast
  assume "\<exists>(r, c) \<in> set (targetCells (entityRect tx ty w h)). \<not> inGrid r c"
  then have "tileScan (mapRef s) (targetCells (entityRect tx ty w h)) \<noteq> Inr False"
    using tileScan_outside by blast
  with t have "t = True" by auto
  with t show "isCollision s tx ty w h cx cy = Inr True"
    by (simp add: isCollision_def)
qed

theorem isCollision_out_of_bounds_witness:
  "wfGrid (mapRef arenaWorld) \<and>
   (1, -1) \<in> set (targetCells (entityRect 10 72 30 30)) \<and> \<not> inGrid 1 (-1) \<and>
   isCollision arenaWorld 10 72 30 30 72 72 = Inr True"
proof -
  have wf: "wfGrid (mapRef arenaWorld)" by (simp add: arenaWorld_def wfGrid_openArena)
  have c: "(1, -1) \<in> set (targetCells (entityRect 10 72 30 30))"
    by (simp add: targetCells_def entityRect_def coveredCells_def upto.simps)
  have o: "\<not> inGrid 1 (-1)" by (simp add: inGrid_def)
  show ?thesis
    using isCollision_out_of_bounds [OF wf, of 10 72 30 30 72 72] wf c o by blast
qed

subsection \<open>Terminal states\<close>

text \<open>
  C6. In a state whose status is Lost or Won, any run of ticks, whatever the delta-times,
  random numbers and clock readings, returns the state it was given: nothing of the player,
  the enemies, the map, the bombs, the explosions, the keys or the status changes.
\<close>

theorem ticks_terminal_identity:
  "gameStatus s = Lost \<or> gameStatus s = Won \<Longrightarrow> ticks rv ts s = Inr s"
proof (induction ts)
  case Nil
  show ?case by simp
next
  case (Cons t ts)
  obtain dt rnd now where t: "t = (dt, rnd, now)" by (cases t) auto
  from Cons.prems have "update rv dt rnd now s = Inr s"
    by (auto simp: update_def)
  with Cons t show ?case by simp
qed

theorem ticks_terminal_identity_witness:
  "(gameStatus lostWorld = Lost \<or> gameStatus lostWorld = Won) \<and>
   ticks Keyboard [(16, \<lambda>_. 0, 1000), (500, \<lambda>_. 1 / 2, 1500)] lostWorld = Inr lostWorld"
  using ticks_terminal_identity [of lostWorld Keyboard "[(16, \<lambda>_. 0, 1000), (500, \<lambda>_. 1 / 2, 1500)]"]
  by (simp add: lostWorld_def)

subsection \<open>Map generation\<close>


lemma genRow_Suc:
  "genRow rv rnd r (Suc n) k =
     (let (row, k1) = genRow rv rnd r n k; (t, k') = genCell rv rnd r n k1 in (row @ [t], k'))"
  by (simp add: genRow_def split: prod.splits)

lemma genRow_0: "genRow rv rnd r 0 k = ([], k)"
  by (simp add: genRow_def)

lemma genRow_length: "length (fst (genRow rv rnd r n k)) = n"
  by (induction n) (auto simp: genRow_0 genRow_Suc split: prod.splits)

lemma genRow_nth:
  "c < n \<Longrightarrow> \<exists>k'. fst (genRow rv rnd r n k) ! c = fst (genCell rv rnd r c k')"
proof (induction n)
  case 0
  then show ?case by simp
next
  case (Suc n)
  obtain row k1 where g: "genRow rv rnd r n k = (row, k1)" by (cases "genRow rv rnd r n k") auto
  have len: "length row = n" using genRow_length [of rv rnd r n k] g by simp
  show ?case
  proof (cases "c < n")
    case True
    with Suc.IH g len show ?thesis
      by (auto simp: genRow_Suc nth_append split: prod.splits)
  next
    case False
    with Suc.prems have "c = n" by simp
    with g len show ?thesis
      by (auto simp: genRow_Suc nth_append split: prod.splits intro: exI [of _ k1])
  qed
qed

lemma genMap_Suc:
  "genMap rv rnd (Suc n) =
     (let (m, k) = genMap rv rnd n; (row, k') = genRow rv rnd n (nat GRID_COLS) k in (m @ [row], k'))"
  by (simp add: genMap_def split: prod.splits)

lemma genMap_0: "genMap rv rnd 0 = ([], 0)"
  by (simp add: genMap_def)

lemma genMap_length: "length (fst (genMap rv rnd n)) = n"
  by (induction n) (auto simp: genMap_0 genMap_Suc split: prod.splits)

lemma genMap_nth:
  "r < n \<Longrightarrow> \<exists>k. fst (genMap rv rnd n) ! r = fst (genRow rv rnd r (nat GRID_COLS) k)"
proof (induction n)
  case 0
  then show ?case by simp
next
  case (Suc n)
  obtain m k1 where g: "genMap rv rnd n = (m, k1)" by (cases "genMap rv rnd n") auto
  have len: "length m = n" using genMap_length [of rv rnd n] g by simp
  show ?case
  proof (cases "r < n")
    case True
    with Suc.IH g len show ?thesis
      by (auto simp: genMap_Suc nth_append split: prod.splits)
  next
    case False
    with Suc.prems have "r = n" by simp
    with g len show ?thesis
      by (auto simp: genMap_Suc nth_append split: prod.splits intro: exI [of _ k1])
  qed
qed

lemma genMap_cell:
  assumes "r < 15" "c < 15"
  shows "\<exists>k. fst (genMap rv rnd 15) ! r ! c = fst (genCell rv rnd r c k)"
proof -
  obtain k where "fst (genMap rv rnd 15) ! r = fst (genRow rv rnd r (nat GRID_COLS) k)"
    using genMap_nth [OF assms(1)] by blast
  moreover obtain k' where "fst (genRow rv rnd r (nat GRID_COLS) k) ! c = fst (genCell rv rnd r c k')"
    using genRow_nth [of c "nat GRID_COLS" rv rnd r k] assms(2) by auto
  ultimately show ?thesis by auto
qed

lemma wfGrid_genMap: "wfGrid (fst (genMap rv rnd 15))"
proof -
  have "\<forall>r<15. length (fst (genMap rv rnd 15) ! r) = 15"
  proof (intro allI impI)
    fix r :: nat assume "r < 15"
    then obtain k where "fst (genMap rv rnd 15) ! r = fst (genRow rv rnd r (nat GRID_COLS) k)"
      using genMap_nth by blast
    then show "length (fst (genMap rv rnd 15) ! r) = 15" by (simp add: genRow_length)
  qed
  then show ?thesis
    by (simp add: wfGrid_def genMap_length list_all_length)
qed

text \<open>
  C9. In every generated map, whatever the random numbers: each cell on the outer border
  and each cell with even row and even column holds HardWall, and each cell that reaches the
  safe-zone test and passes it holds Empty. In both revisions these are the cells (1, 1),
  (1, 2) and (2, 1): the test \<^verbatim>\<open>r < 3 && c < 3\<close> of the touch revision is only evaluated
  for cells that are neither on the border nor a pillar.
\<close>

theorem genMap_walls_and_safe_zone:
  assumes "r < 15" and "c < 15"
  shows "(onBorder r c \<or> (even r \<and> even c) \<longrightarrow>
            tileAt (fst (genMap rv rnd (nat GRID_ROWS))) (int r) (int c) = Inr (Some HardWall)) \<and>
         (\<not> forcedWall r c \<and> isSafeZone rv r c \<longrightarrow>
            tileAt (fst (genMap rv rnd (nat GRID_ROWS))) (int r) (int c) = Inr (Some Empty)) \<and>
         ((r, c) \<in> {(1, 1), (1, 2), (2, 1)} \<longrightarrow>
            tileAt (fst (genMap rv rnd (nat GRID_ROWS))) (int r) (int c) = Inr (Some Empty))"
proof -
  let ?m = "fst (genMap rv rnd 15)"
  have wf: "wfGrid ?m" by (rule wfGrid_genMap)
  have ig: "inGrid (int r) (int c)" using assms by (simp add: inGrid_def)
  obtain k where k: "?m ! r ! c = fst (genCell rv rnd r c k)"
    using genMap_cell [OF assms] by blast
  have t: "tileAt ?m (int r) (int c) = Inr (Some (fst (genCell rv rnd r c k)))"
    using wfGrid_tileAt [OF wf ig] k by simp
  have safe3: "(r, c) \<in> {(1, 1), (1, 2), (2, 1)} \<Longrightarrow> \<not> forcedWall r c \<and> isSafeZone rv r c"
    by (cases rv) (auto simp: forcedWall_def isSafeZone_def)
  show ?thesis
    using t safe3
    by (auto simp: genCell_def forcedWall_def onBorder_def)
qed

theorem genMap_walls_and_safe_zone_witness:
  "(2::nat) < 15 \<and> (1::nat) < 15 \<and> \<not> forcedWall 2 1 \<and> isSafeZone Touch 2 1 \<and>
   tileAt (fst (genMap Touch (\<lambda>_. 0) (nat GRID_ROWS))) 2 1 = Inr (Some Empty) \<and>
   onBorder 14 3 \<and> tileAt (fst (genMap Keyboard (\<lambda>_. 1 / 2) (nat GRID_ROWS))) 14 3 = Inr (Some HardWall)"
  using genMap_walls_and_safe_zone [of 2 1 Touch "\<lambda>_. 0"] genMap_walls_and_safe_zone [of 14 3 Keyboard "\<lambda>_. 1 / 2"]
  by (simp add: forcedWall_def isSafeZone_def onBorder_def)

subsection \<open>Bomb bookkeeping\<close>

lemma movePlayerX_frame:
  "movePlayerX rv dx s = Inr s' \<Longrightarrow>
   s' = s\<lparr>playerRef := (playerRef s)\<lparr>x := x (playerRef s'), y := y (playerRef s')\<rparr>\<rparr>"
  by (auto simp: movePlayerX_def Let_def split: sum.splits bool.splits if_splits)

lemma movePlayerY_frame:
  "movePlayerY rv dy s = Inr s' \<Longrightarrow>
   s' = s\<lparr>playerRef := (playerRef s)\<lparr>x := x (playerRef s'), y := y (playerRef s')\<rparr>\<rparr>"
  by (auto simp: movePlayerY_def Let_def split: sum.splits bool.splits if_splits)

lemma bombInv_moved:
  "bombInv s \<Longrightarrow> bombInv (s\<lparr>playerRef := (playerRef s)\<lparr>x := px, y := py\<rparr>\<rparr>)"
  by (simp add: bombInv_def)

lemma floor_tile_center: "\<lfloor>(real_of_int c * 48 + 24) / 48\<rfloor> = c"
  by (rule floor_unique) (simp_all add: field_simps)

lemma placeBomb_bombInv: "bombInv s \<Longrightarrow> bombInv (placeBomb now s)"
  by (auto simp: bombInv_def placeBomb_def Let_def list_ex_iff cellOfBomb_def getGridPos_def
      floor_tile_center prod_eq_iff)

lemma wfGrid_setTile: "wfGrid m \<Longrightarrow> wfGrid (setTile m r c v)"
proof -
  assume wf: "wfGrid m"
  have "length ((setTile m r c v) ! n) = 15" if "n < 15" for n
  proof (cases "n = nat r")
    case True
    with wf that show ?thesis by (simp add: wfGrid_def setTile_def list_all_length)
  next
    case False
    with wf that show ?thesis by (simp add: wfGrid_def setTile_def list_all_length)
  qed
  with wf show ?thesis by (simp add: wfGrid_def list_all_length setTile_def)
qed

lemma rayLoop_wf:
  "rayLoop center d rng i mp = Inr mp' \<Longrightarrow> wfGrid (fst mp) \<Longrightarrow> wfGrid (fst mp')"
proof (induction center d rng i mp rule: rayLoop.induct)
  case (1 center d rng i m ps)
  from "1.prems" "1.IH" show ?case
    by (subst (asm) rayLoop.simps)
       (auto simp: Let_def wfGrid_setTile split: if_splits sum.splits)
qed

lemma raysForEach_wf:
  "raysForEach center rng ds mp = Inr mp' \<Longrightarrow> wfGrid (fst mp) \<Longrightarrow> wfGrid (fst mp')"
proof (induction ds arbitrary: mp)
  case Nil
  then show ?case by simp
next
  case (Cons d ds)
  then show ?case
    by (auto split: sum.splits dest: rayLoop_wf)
qed

lemma length_splice1: "i < length xs \<Longrightarrow> length (splice1 i xs) = length xs - 1"
  by (simp add: splice1_def)

lemma set_splice1: "set (splice1 i xs) \<subseteq> set xs"
  by (auto simp: splice1_def dest: in_set_takeD in_set_dropD)

lemma map_splice1: "map f (splice1 i xs) = splice1 i (map f xs)"
  by (simp add: splice1_def take_map drop_map)

lemma distinct_splice1: "distinct xs \<Longrightarrow> distinct (splice1 i xs)"
proof -
  assume d: "distinct xs"
  have "set (take i xs) \<inter> set (drop (Suc i) xs) = {}"
    using d set_take_disj_set_drop_if_distinct [of xs i "Suc i"] by simp
  with d show ?thesis by (simp add: splice1_def)
qed

lemma explodeBomb_fields:
  assumes "explodeBomb rv now bomb index s = Inr s'"
  shows "bombsRef s' = splice1 index (bombsRef s)"
    and "playerRef s' = (if rv = Touch \<or> ownerId bomb = ''player''
                         then (playerRef s)\<lparr>bombCount := bombCount (playerRef s) - 1\<rparr>
                         else playerRef s)"
    and "enemiesRef s' = enemiesRef s" and "inputsRef s' = inputsRef s"
    and "gameStatus s' = gameStatus s"
    and "wfGrid (mapRef s) \<Longrightarrow> wfGrid (mapRef s')"
  using assms
  by (auto simp: explodeBomb_def Let_def split: sum.splits prod.splits if_splits
      dest: raysForEach_wf)

lemma explodeBomb_bombInv:
  assumes "bombInv s" and "index < length (bombsRef s)" and "ownerId bomb = ''player''"
    and "explodeBomb rv now bomb index s = Inr s'"
  shows "bombInv s'"
proof -
  note f = explodeBomb_fields [OF assms(4)]
  have "distinct (map cellOfBomb (bombsRef s'))"
    using assms(1) by (simp add: f(1) map_splice1 distinct_splice1 bombInv_def)
  moreover have "\<forall>b\<in>set (bombsRef s'). ownerId b = ''player''"
    using assms(1) set_splice1 [of index "bombsRef s"] by (auto simp: f(1) bombInv_def)
  moreover have "bombCount (playerRef s') = int (length (bombsRef s'))"
    using assms(1,2,3) by (simp add: f(1,2) length_splice1 bombInv_def)
  moreover have "bombCount (playerRef s') \<le> maxBombs (playerRef s')"
    using assms(1,3) by (simp add: f(2) bombInv_def)
  moreover have "wfGrid (mapRef s')"
    using assms(1) f(6) by (simp add: bombInv_def)
  ultimately show ?thesis by (simp add: bombInv_def)
qed

lemma bombInv_timer:
  assumes "bombInv s" and "i < length (bombsRef s)"
  shows "bombInv (s\<lparr>bombsRef := (bombsRef s)[i := (bombsRef s ! i)\<lparr>bomb_timer := t\<rparr>]\<rparr>)"
proof -
  have c: "map cellOfBomb ((bombsRef s)[i := (bombsRef s ! i)\<lparr>bomb_timer := t\<rparr>]) = map cellOfBomb (bombsRef s)"
    using assms(2) by (simp add: map_update cellOfBomb_def list_update_same_conv)
  have o: "\<forall>b\<in>set ((bombsRef s)[i := (bombsRef s ! i)\<lparr>bomb_timer := t\<rparr>]). ownerId b = ''player''"
  proof
    fix b assume "b \<in> set ((bombsRef s)[i := (bombsRef s ! i)\<lparr>bomb_timer := t\<rparr>])"
    then have "b \<in> insert ((bombsRef s ! i)\<lparr>bomb_timer := t\<rparr>) (set (bombsRef s))"
      using set_update_subset_insert by fastforce
    with assms show "ownerId b = ''player''" by (auto simp: bombInv_def)
  qed
  from assms(1) c o show ?thesis by (simp add: bombInv_def)
qed

lemma bombsLoop_bombInv:
  "bombInv s \<Longrightarrow> i \<le> length (bombsRef s) \<Longrightarrow> bombsLoop rv dt now i s = Inr s' \<Longrightarrow> bombInv s'"
proof (induction i arbitrary: s)
  case 0
  then show ?case by simp
next
  case (Suc i)
  let ?b = "(bombsRef s ! i)\<lparr>bomb_timer := bomb_timer (bombsRef s ! i) - dt\<rparr>"
  let ?s1 = "s\<lparr>bombsRef := (bombsRef s)[i := ?b]\<rparr>"
  from Suc.prems have i: "i < length (bombsRef s)" by simp
  have inv1: "bombInv ?s1" using bombInv_timer [OF Suc.prems(1) i] .
  have own: "ownerId ?b = ''player''" using Suc.prems(1) i by (simp add: bombInv_def)
  show ?case
  proof (cases "bomb_timer ?b \<le> 0")
    case True
    with Suc.prems(3) obtain s2 where e: "explodeBomb rv now ?b i ?s1 = Inr s2"
      and l: "bombsLoop rv dt now i s2 = Inr s'"
      by (auto simp: Let_def split: sum.splits)
    have inv2: "bombInv s2" using explodeBomb_bombInv [OF inv1 _ own e] i by simp
    have "i \<le> length (bombsRef s2)"
      using explodeBomb_fields(1) [OF e] i by (simp add: length_splice1)
    with Suc.IH inv2 l show ?thesis by blast
  next
    case False
    with Suc.prems(3) have "bombsLoop rv dt now i ?s1 = Inr s'" by (simp add: Let_def)
    moreover have "i \<le> length (bombsRef ?s1)" using i by simp
    ultimately show ?thesis using Suc.IH inv1 by blast
  qed
qed

lemma enemyHitLoop_frame:
  "mapRef (enemyHitLoop p n s) = mapRef s \<and> bombsRef (enemyHitLoop p n s) = bombsRef s \<and>
   explosionsRef (enemyHitLoop p n s) = explosionsRef s \<and>
   inputsRef (enemyHitLoop p n s) = inputsRef s \<and> playerRef (enemyHitLoop p n s) = playerRef s \<and>
   gameStatus (enemyHitLoop p n s) = gameStatus s"
  by (induction n arbitrary: s) (simp_all add: Let_def)

lemma hitParticle_frame:
  "mapRef (hitParticle s p) = mapRef s \<and> bombsRef (hitParticle s p) = bombsRef s \<and>
   explosionsRef (hitParticle s p) = explosionsRef s \<and> inputsRef (hitParticle s p) = inputsRef s \<and>
   (playerRef (hitParticle s p))\<lparr>alive := True\<rparr> = (playerRef s)\<lparr>alive := True\<rparr>"
  by (simp add: hitParticle_def Let_def enemyHitLoop_frame)

lemma foldl_hitParticle_frame:
  "mapRef (foldl hitParticle s ps) = mapRef s \<and> bombsRef (foldl hitParticle s ps) = bombsRef s \<and>
   explosionsRef (foldl hitParticle s ps) = explosionsRef s \<and>
   inputsRef (foldl hitParticle s ps) = inputsRef s \<and>
   (playerRef (foldl hitParticle s ps))\<lparr>alive := True\<rparr> = (playerRef s)\<lparr>alive := True\<rparr>"
  by (induction ps arbitrary: s) (simp_all add: hitParticle_frame)

lemma explosionsLoop_frame:
  "mapRef (explosionsLoop dt n s) = mapRef s \<and> bombsRef (explosionsLoop dt n s) = bombsRef s \<and>
   inputsRef (explosionsLoop dt n s) = inputsRef s \<and>
   (playerRef (explosionsLoop dt n s))\<lparr>alive := True\<rparr> = (playerRef s)\<lparr>alive := True\<rparr>"
  by (induction n arbitrary: s) (simp_all add: Let_def foldl_hitParticle_frame)

lemma enemyStep_frame:
  "enemyStep rv rnd k enemy s = Inr (enemy', k', s') \<Longrightarrow>
   mapRef s' = mapRef s \<and> bombsRef s' = bombsRef s \<and> explosionsRef s' = explosionsRef s \<and>
   inputsRef s' = inputsRef s \<and> enemiesRef s' = enemiesRef s \<and>
   (playerRef s')\<lparr>alive := True\<rparr> = (playerRef s)\<lparr>alive := True\<rparr>"
  by (auto simp: enemyStep_def Let_def split: sum.splits if_splits prod.splits)

lemma enemiesForEach_frame:
  "enemiesForEach rv rnd k es s = Inr (es', s') \<Longrightarrow>
   mapRef s' = mapRef s \<and> bombsRef s' = bombsRef s \<and> explosionsRef s' = explosionsRef s \<and>
   inputsRef s' = inputsRef s \<and> enemiesRef s' = enemiesRef s \<and>
   (playerRef s')\<lparr>alive := True\<rparr> = (playerRef s)\<lparr>alive := True\<rparr>"
proof (induction es arbitrary: k s es')
  case Nil
  then show ?case by simp
next
  case (Cons enemy es)
  from Cons.prems obtain enemy1 k1 s1 es1 where
    st: "enemyStep rv rnd k enemy s = Inr (enemy1, k1, s1)" and
    re: "enemiesForEach rv rnd k1 es s1 = Inr (es1, s')"
    by (auto split: sum.splits prod.splits)
  from enemyStep_frame [OF st] Cons.IH [OF re] show ?case by simp
qed

lemma bombInv_cong:
  assumes "bombInv s" and "mapRef s' = mapRef s" and "bombsRef s' = bombsRef s"
    and "(playerRef s')\<lparr>alive := True\<rparr> = (playerRef s)\<lparr>alive := True\<rparr>"
  shows "bombInv s'"
proof -
  have "bombCount (playerRef s') = bombCount ((playerRef s')\<lparr>alive := True\<rparr>)" by simp
  also have "\<dots> = bombCount (playerRef s)" unfolding assms(4) by simp
  finally have c: "bombCount (playerRef s') = bombCount (playerRef s)" .
  have "maxBombs (playerRef s') = maxBombs ((playerRef s')\<lparr>alive := True\<rparr>)" by simp
  also have "\<dots> = maxBombs (playerRef s)" unfolding assms(4) by simp
  finally have m: "maxBombs (playerRef s') = maxBombs (playerRef s)" .
  from assms(1-3) c m show ?thesis by (simp add: bombInv_def)
qed

lemma update_bombInv:
  assumes "bombInv s" and "update rv dt rnd now s = Inr s'"
  shows "bombInv s'"
proof (cases "gameStatus s = Playing")
  case False
  with assms show ?thesis by (simp add: update_def)
next
  case True
  obtain dx dy where d: "desiredStep (inputsRef s) (speed (playerRef s)) = (dx, dy)"
    by (cases "desiredStep (inputsRef s) (speed (playerRef s))") auto
  from assms(2) True d obtain s1 s2 s4 es s6 where
    m1: "(if dx \<noteq> 0 then movePlayerX rv dx s else Inr s) = Inr s1" and
    m2: "(if dy \<noteq> 0 then movePlayerY rv dy s1 else Inr s1) = Inr s2" and
    bl: "bombsLoop rv dt now
           (length (bombsRef (if Space (inputsRef s2)
                     then (placeBomb now s2)\<lparr>inputsRef := (inputsRef s2)\<lparr>Space := False\<rparr>\<rparr>
                     else s2)))
           (if Space (inputsRef s2)
                     then (placeBomb now s2)\<lparr>inputsRef := (inputsRef s2)\<lparr>Space := False\<rparr>\<rparr>
                     else s2) = Inr s4" and
    en: "enemiesForEach rv rnd 0 (enemiesRef (explosionsLoop dt (length (explosionsRef s4)) s4))
           (explosionsLoop dt (length (explosionsRef s4)) s4) = Inr (es, s6)" and
    fin: "s' = (if es = [] then s6\<lparr>enemiesRef := es, gameStatus := Won\<rparr> else s6\<lparr>enemiesRef := es\<rparr>)"
    by (auto simp: update_def Let_def split: sum.splits prod.splits if_splits)
  have i1: "bombInv s1"
  proof (cases "dx \<noteq> 0")
    case True
    with m1 have "movePlayerX rv dx s = Inr s1" by simp
    from movePlayerX_frame [OF this] bombInv_moved [OF assms(1)] show ?thesis by metis
  next
    case False
    with m1 assms(1) show ?thesis by simp
  qed
  have i2: "bombInv s2"
  proof (cases "dy \<noteq> 0")
    case True
    with m2 have "movePlayerY rv dy s1 = Inr s2" by simp
    from movePlayerY_frame [OF this] bombInv_moved [OF i1] show ?thesis by metis
  next
    case False
    with m2 i1 show ?thesis by simp
  qed
  let ?s3 = "if Space (inputsRef s2)
             then (placeBomb now s2)\<lparr>inputsRef := (inputsRef s2)\<lparr>Space := False\<rparr>\<rparr>
             else s2"
  have i3: "bombInv ?s3"
    using i2 placeBomb_bombInv [OF i2, of now] by (simp add: bombInv_def)
  have i4: "bombInv s4" using bombsLoop_bombInv [OF i3 _ bl] by simp
  let ?s5 = "explosionsLoop dt (length (explosionsRef s4)) s4"
  have i5: "bombInv ?s5"
    using bombInv_cong [OF i4] explosionsLoop_frame [of dt "length (explosionsRef s4)" s4] by simp
  have i6: "bombInv s6"
    using bombInv_cong [OF i5] enemiesForEach_frame [OF en] by simp
  from i6 fin show ?thesis by (simp add: bombInv_def)
qed

lemma initGame_bombInv:
  assumes "initGame rv rnd s = Some (Inr s')"
  shows "bombInv s'"
proof -
  from assms have "mapRef s' = fst (genMap rv rnd 15)" and "bombsRef s' = []"
    and "playerRef s' = newPlayer rv"
    by (auto simp: initGame_def split: prod.splits option.splits sum.splits)
  then show ?thesis
    by (simp add: bombInv_def wfGrid_genMap newPlayer_def)
qed

lemma reachable_bombInv: "reachable rv s \<Longrightarrow> bombInv s"
proof (induction rule: reachable.induct)
  case (start rnd s s')
  then show ?case by (rule initGame_bombInv)
next
  case (tick s dt rnd now s')
  then show ?case using update_bombInv by blast
next
  case (keys s inputs)
  then show ?case by (simp add: bombInv_def)
qed

subsection \<open>A concrete round\<close>

lemma genCell_half: "fst (genCell rv (\<lambda>_. 1 / 2) r c k) = (if forcedWall r c then HardWall else Empty)"
  by (simp add: genCell_def)

lemma genMap_half: "fst (genMap rv (\<lambda>_. 1 / 2) 15) = openArena"
proof (rule nth_equalityI)
  show "length (fst (genMap rv (\<lambda>_. 1 / 2) 15)) = length openArena"
    by (simp add: genMap_length openArena_def)
next
  fix r assume "r < length (fst (genMap rv (\<lambda>_. 1 / 2) 15))"
  then have r: "r < 15" by (simp add: genMap_length)
  obtain k where k: "fst (genMap rv (\<lambda>_. 1 / 2) 15) ! r = fst (genRow rv (\<lambda>_. 1 / 2) r (nat GRID_COLS) k)"
    using genMap_nth [OF r] by blast
  have "fst (genRow rv (\<lambda>_. 1 / 2) r 15 k) = openArena ! r"
  proof (rule nth_equalityI)
    show "length (fst (genRow rv (\<lambda>_. 1 / 2) r 15 k)) = length (openArena ! r)"
      using r by (simp add: genRow_length openArena_def)
  next
    fix c assume "c < length (fst (genRow rv (\<lambda>_. 1 / 2) r 15 k))"
    then have c: "c < 15" by (simp add: genRow_length)
    obtain k' where "fst (genRow rv (\<lambda>_. 1 / 2) r 15 k) ! c = fst (genCell rv (\<lambda>_. 1 / 2) r c k')"
      using genRow_nth [OF c] by blast
    then show "fst (genRow rv (\<lambda>_. 1 / 2) r 15 k) ! c = openArena ! r ! c"
      using r c by (simp add: genCell_half openArena_def)
  qed
  with k show "fst (genMap rv (\<lambda>_. 1 / 2) 15) ! r = openArena ! r" by simp
qed

lemma initGame_startWorld: "initGame Keyboard (\<lambda>_. 1 / 2) menuWorld = Some (Inr startWorld)"
proof -
  obtain k where g: "genMap Keyboard (\<lambda>_. 1 / 2) 15 = (openArena, k)"
    using genMap_half [of Keyboard] by (cases "genMap Keyboard (\<lambda>_. 1 / 2) 15") auto
  have "spawnLoop Keyboard openArena (\<lambda>_. 1 / 2) k 3 0 [] = Some (Inr (replicate 3 (newEnemy (1 / 2) 7 7)))"
    by (simp add: spawnLoop.simps openArena_tileAt forcedWall_def numeral_3_eq_3)
  with g show ?thesis
    by (simp add: initGame_def menuWorld_def startWorld_def)
qed

lemma hypot_less_iff: "0 < d \<Longrightarrow> hypot a b < d \<longleftrightarrow> a\<^sup>2 + b\<^sup>2 < d\<^sup>2"
proof -
  assume d: "0 < d"
  have "sqrt (a\<^sup>2 + b\<^sup>2) < sqrt (d\<^sup>2) \<longleftrightarrow> a\<^sup>2 + b\<^sup>2 < d\<^sup>2"
    by (rule real_sqrt_less_iff)
  with d show ?thesis by (simp add: hypot_def)
qed

lemma hypot_contact: "hypot a b * 5 < 168 \<longleftrightarrow> (a * a + b * b) * 25 < 28224"
  using hypot_less_iff [of "168 / 5" a b] by (simp add: power2_eq_square)

lemmas eval_defs = update_def desiredStep_def placeBomb_def Let_def getGridPos_def cellOfBomb_def
  newPlayer_def noKeys_def enemyStep_def isCollision_def entityRect_def targetCells_def
  coveredCells_def upto.simps openArena_tileAt forcedWall_def bombRect_def rectIntersect_def
  hypot_contact wanderProbability_def newEnemy_def numeral_3_eq_3 bombAt_def
  movePlayerX_def movePlayerY_def

lemma update_startWorld:
  "update Keyboard 16 (\<lambda>_. 1 / 2) 1000 (startWorld\<lparr>inputsRef := noKeys\<lparr>Space := True\<rparr>\<rparr>) = Inr bombWorld"
  by (simp add: startWorld_def bombWorld_def eval_defs)

lemma reachable_bombWorld: "reachable Keyboard bombWorld"
proof -
  have "reachable Keyboard startWorld"
    using initGame_startWorld by (rule reachable.start)
  then have "reachable Keyboard (startWorld\<lparr>inputsRef := noKeys\<lparr>Space := True\<rparr>\<rparr>)"
    by (rule reachable.keys)
  then show ?thesis using update_startWorld by (rule reachable.tick)
qed

lemma explodeBomb_bombWorld:
  "explodeBomb Keyboard 2000 (bombsRef bombWorld ! 0) 0 bombWorld = Inr blastWorld"
  by (simp add: explodeBomb_def bombWorld_def blastWorld_def bombAt_def splice1_def getGridPos_def
      dirs_def rayLoop.simps openArena_tileAt forcedWall_def withAlpha_def particleAt_def
      newPlayer_def Let_def)

text \<open>
  C10. In every reachable state the player's \<open>bombCount\<close> is the number of bombs in the
  live collection, and every bomb there has owner \<^verbatim>\<open>'player'\<close>. (The invariant holds in
  every reachable state, whatever the status.)
\<close>

theorem reachable_bombCount_is_bomb_number:
  assumes "reachable rv s"
  shows "bombCount (playerRef s) = int (length (bombsRef s)) \<and>
         (\<forall>b\<in>set (bombsRef s). ownerId b = ''player'')"
  using reachable_bombInv [OF assms] by (simp add: bombInv_def)

theorem reachable_bombCount_is_bomb_number_witness:
  "reachable Keyboard bombWorld \<and> bombCount (playerRef bombWorld) = 1 \<and>
   length (bombsRef bombWorld) = 1 \<and> ownerId (hd (bombsRef bombWorld)) = ''player''"
  using reachable_bombCount_is_bomb_number [OF reachable_bombWorld] reachable_bombWorld
  by (simp add: bombWorld_def bombAt_def)

lemma distinct_filter_le1: "distinct xs \<Longrightarrow> length (filter (\<lambda>z. z = c) xs) \<le> 1"
  by (induction xs) (auto simp: filter_empty_conv)

text \<open>
  C4. In every reachable state each grid cell holds at most one live bomb, and
  \<^verbatim>\<open>placeBomb\<close> called while a bomb lies in the player's cell returns the state unchanged.
\<close>

theorem one_bomb_per_cell:
  assumes "reachable rv s"
  shows "(\<forall>cell. length (filter (\<lambda>b. cellOfBomb b = cell) (bombsRef s)) \<le> 1) \<and>
         (list_ex (\<lambda>b. cellOfBomb b = getGridPos (x (playerRef s)) (y (playerRef s))) (bombsRef s)
            \<longrightarrow> placeBomb now s = s)"
proof (intro conjI allI impI)
  fix cell
  have d: "distinct (map cellOfBomb (bombsRef s))"
    using reachable_bombInv [OF assms] by (simp add: bombInv_def)
  have "length (filter (\<lambda>b. cellOfBomb b = cell) (bombsRef s))
          = length (filter (\<lambda>z. z = cell) (map cellOfBomb (bombsRef s)))"
    by (simp add: filter_map o_def)
  with distinct_filter_le1 [OF d, of cell]
  show "length (filter (\<lambda>b. cellOfBomb b = cell) (bombsRef s)) \<le> 1" by simp
next
  assume "list_ex (\<lambda>b. cellOfBomb b = getGridPos (x (playerRef s)) (y (playerRef s))) (bombsRef s)"
  then show "placeBomb now s = s"
    by (auto simp: placeBomb_def Let_def list_ex_iff prod_eq_iff)
qed

theorem one_bomb_per_cell_witness:
  "reachable Keyboard bombWorld \<and>
   length (filter (\<lambda>b. cellOfBomb b = (1, 1)) (bombsRef bombWorld)) = 1 \<and>
   list_ex (\<lambda>b. cellOfBomb b = getGridPos (x (playerRef bombWorld)) (y (playerRef bombWorld)))
     (bombsRef bombWorld) \<and>
   placeBomb 2000 bombWorld = bombWorld"
proof -
  have ex: "list_ex (\<lambda>b. cellOfBomb b = getGridPos (x (playerRef bombWorld)) (y (playerRef bombWorld)))
     (bombsRef bombWorld)"
    by (simp add: bombWorld_def bombAt_def cellOfBomb_def getGridPos_def newPlayer_def)
  have one: "length (filter (\<lambda>b. cellOfBomb b = (1, 1)) (bombsRef bombWorld)) = 1"
    by (simp add: bombWorld_def bombAt_def cellOfBomb_def getGridPos_def)
  show ?thesis
    using one_bomb_per_cell [OF reachable_bombWorld, of 2000] reachable_bombWorld ex one by simp
qed

text \<open>
  C5. In every reachable state the player's count is at most \<open>maxBombs\<close> and \<^verbatim>\<open>placeBomb\<close>
  does nothing when the count has reached it; every live bomb is the player's; a detonation
  of a player's bomb lowers the count by exactly one; and in the keyboard revision the
  detonation of any other bomb leaves the count alone. (The touch revision decrements
  without looking at the owner; its reachable states hold the player's bombs only.)
\<close>

theorem bombCount_bounded:
  assumes "reachable rv s"
  shows "bombCount (playerRef s) \<le> maxBombs (playerRef s) \<and>
         (bombCount (playerRef s) \<ge> maxBombs (playerRef s) \<longrightarrow> placeBomb now s = s) \<and>
         (\<forall>b\<in>set (bombsRef s). ownerId b = ''player'') \<and>
         (\<forall>bomb index s'. explodeBomb rv now bomb index s = Inr s' \<longrightarrow>
            (ownerId bomb = ''player'' \<longrightarrow>
               bombCount (playerRef s') = bombCount (playerRef s) - 1) \<and>
            (ownerId bomb \<noteq> ''player'' \<and> rv = Keyboard \<longrightarrow>
               bombCount (playerRef s') = bombCount (playerRef s)))"
proof (intro conjI allI impI)
  show "bombCount (playerRef s) \<le> maxBombs (playerRef s)"
    using reachable_bombInv [OF assms] by (simp add: bombInv_def)
  show "\<forall>b\<in>set (bombsRef s). ownerId b = ''player''"
    using reachable_bombInv [OF assms] by (simp add: bombInv_def)
next
  assume "bombCount (playerRef s) \<ge> maxBombs (playerRef s)"
  then show "placeBomb now s = s" by (simp add: placeBomb_def)
next
  fix bomb index s'
  assume e: "explodeBomb rv now bomb index s = Inr s'" and o: "ownerId bomb = ''player''"
  show "bombCount (playerRef s') = bombCount (playerRef s) - 1"
    using explodeBomb_fields(2) [OF e] o by simp
next
  fix bomb index s'
  assume e: "explodeBomb rv now bomb index s = Inr s'"
    and o: "ownerId bomb \<noteq> ''player'' \<and> rv = Keyboard"
  show "bombCount (playerRef s') = bombCount (playerRef s)"
    using explodeBomb_fields(2) [OF e] o by simp
qed

theorem bombCount_bounded_witness:
  "reachable Keyboard bombWorld \<and>
   bombCount (playerRef bombWorld) = 1 \<and> maxBombs (playerRef bombWorld) = 3 \<and>
   ownerId (bombsRef bombWorld ! 0) = ''player'' \<and>
   explodeBomb Keyboard 2000 (bombsRef bombWorld ! 0) 0 bombWorld = Inr blastWorld \<and>
   bombCount (playerRef blastWorld) = 0"
  using bombCount_bounded [OF reachable_bombWorld, of 2000] reachable_bombWorld explodeBomb_bombWorld
  by (simp add: bombWorld_def blastWorld_def bombAt_def newPlayer_def)

subsection \<open>Detonation\<close>

lemma tile_setTile:
  assumes "wfGrid m" and "inGrid r c" and "inGrid r' c'"
  shows "setTile m r c v ! nat r' ! nat c' = (if r' = r \<and> c' = c then v else m ! nat r' ! nat c')"
proof -
  from assms have b: "nat r < length m" "nat c < length (m ! nat r)" "0 \<le> r" "0 \<le> c" "0 \<le> r'" "0 \<le> c'"
    by (auto simp: wfGrid_def inGrid_def list_all_length)
  show ?thesis
  proof (cases "r' = r")
    case True
    with b show ?thesis by (auto simp: setTile_def nth_list_update)
  next
    case False
    with b have "nat r' \<noteq> nat r" by auto
    with False show ?thesis by (simp add: setTile_def)
  qed
qed

lemma rayLoop_spec_aux:
  "nat (rng + 1 - i) = n \<Longrightarrow> wfGrid m \<Longrightarrow>
   \<exists>m'. rayLoop center d rng i (m, ps) =
           Inr (m', ps @ map pointOf (spec_ray m (map (rayCell center d) [i..rng]))) \<and>
         wfGrid m' \<and>
         (\<forall>r c. inGrid r c \<longrightarrow>
            m' ! nat r ! nat c =
              (if (r, c) \<in> set (spec_ray m (map (rayCell center d) [i..rng])) \<and> m ! nat r ! nat c = SoftWall
               then Empty else m ! nat r ! nat c))"
proof (induction n arbitrary: i ps)
  case 0
  then have "\<not> i \<le> rng" by simp
  with 0 show ?case by (simp add: rayLoop.simps)
next
  case (Suc n)
  then have le: "i \<le> rng" by simp
  define r where "r = fst center + fst d * i"
  define c where "c = snd center + snd d * i"
  have cells: "map (rayCell center d) [i..rng] = (r, c) # map (rayCell center d) [i + 1..rng]"
    using le by (simp add: upto_rec1 rayCell_def r_def c_def)
  show ?case
  proof (cases "inGrid r c")
    case False
    then have "rayLoop center d rng i (m, ps) = Inr (m, ps)"
      using le by (subst rayLoop.simps) (auto simp: inGrid_def r_def c_def Let_def)
    with False Suc.prems(2) show ?thesis by (simp add: cells)
  next
    case True
    then have oob: "\<not> (r < 0 \<or> r \<ge> GRID_ROWS \<or> c < 0 \<or> c \<ge> GRID_COLS)"
      by (simp add: inGrid_def)
    have ta: "tileAt m r c = Inr (Some (m ! nat r ! nat c))"
      using wfGrid_tileAt [OF Suc.prems(2) True] .
    show ?thesis
    proof (cases "m ! nat r ! nat c")
      case HardWall
      have "rayLoop center d rng i (m, ps) = Inr (m, ps)"
        using le oob ta HardWall
        by (subst rayLoop.simps) (simp add: Let_def r_def [symmetric] c_def [symmetric])
      with True HardWall Suc.prems(2) show ?thesis by (simp add: cells)
    next
      case SoftWall
      have "rayLoop center d rng i (m, ps) = Inr (setTile m r c Empty, ps @ [pointOf (r, c)])"
        using le oob ta SoftWall
        by (subst rayLoop.simps) (simp add: Let_def r_def [symmetric] c_def [symmetric] pointOf_def)
      moreover have "wfGrid (setTile m r c Empty)" using Suc.prems(2) by (rule wfGrid_setTile)
      moreover have "\<forall>r' c'. inGrid r' c' \<longrightarrow>
            setTile m r c Empty ! nat r' ! nat c' =
              (if (r', c') \<in> set [(r, c)] \<and> m ! nat r' ! nat c' = SoftWall
               then Empty else m ! nat r' ! nat c')"
        using tile_setTile [OF Suc.prems(2) True] SoftWall by auto
      ultimately show ?thesis using True SoftWall by (simp add: cells)
    next
      case Empty
      have n: "nat (rng + 1 - (i + 1)) = n" using Suc.prems(1) by simp
      from Suc.IH [OF n Suc.prems(2), of "ps @ [pointOf (r, c)]"] obtain m' where
        m': "rayLoop center d rng (i + 1) (m, ps @ [pointOf (r, c)]) =
               Inr (m', (ps @ [pointOf (r, c)]) @ map pointOf (spec_ray m (map (rayCell center d) [i + 1..rng])))"
          "wfGrid m'"
          "\<forall>r' c'. inGrid r' c' \<longrightarrow>
            m' ! nat r' ! nat c' =
              (if (r', c') \<in> set (spec_ray m (map (rayCell center d) [i + 1..rng])) \<and> m ! nat r' ! nat c' = SoftWall
               then Empty else m ! nat r' ! nat c')"
        by blast
      have "rayLoop center d rng i (m, ps) = rayLoop center d rng (i + 1) (m, ps @ [pointOf (r, c)])"
        using le oob ta Empty
        by (subst rayLoop.simps) (simp add: Let_def r_def [symmetric] c_def [symmetric] pointOf_def)
      with m' True Empty show ?thesis
        by (auto simp: cells)
    qed
  qed
qed

lemma rayLoop_spec:
  assumes "wfGrid m"
  shows "\<exists>m'. rayLoop center d rng 1 (m, ps) =
           Inr (m', ps @ map pointOf (spec_ray m (rayCells center d rng))) \<and>
         wfGrid m' \<and>
         (\<forall>r c. inGrid r c \<longrightarrow>
            m' ! nat r ! nat c =
              (if (r, c) \<in> set (spec_ray m (rayCells center d rng)) \<and> m ! nat r ! nat c = SoftWall
               then Empty else m ! nat r ! nat c))"
  using rayLoop_spec_aux [where n = "nat (rng + 1 - 1)" and i = 1 and rng = rng and m = m
      and center = center and d = d and ps = ps] assms
  by (simp add: rayCells_def)

lemma spec_ray_subset: "set (spec_ray m cells) \<subseteq> set cells"
proof (induction cells)
  case Nil
  show ?case by simp
next
  case (Cons cell cells)
  obtain r c where "cell = (r, c)" by (cases cell) auto
  with Cons show ?case by (auto split: TileType.splits)
qed

lemma spec_ray_agree:
  "(\<forall>(r, c)\<in>set cells. inGrid r c \<longrightarrow> m' ! nat r ! nat c = m ! nat r ! nat c) \<Longrightarrow>
   spec_ray m' cells = spec_ray m cells"
proof (induction cells)
  case Nil
  show ?case by simp
next
  case (Cons cell cells)
  obtain r c where "cell = (r, c)" by (cases cell) auto
  with Cons show ?case by (auto split: TileType.splits)
qed

lemma raysForEach_spec:
  assumes "wfGrid m"
    and "\<forall>d\<in>set ds. \<forall>(r, c)\<in>set (rayCells center d rng). inGrid r c \<longrightarrow> m ! nat r ! nat c = m0 ! nat r ! nat c"
    and "distinct ds"
    and "\<forall>d\<in>set ds. \<forall>d'\<in>set ds. d \<noteq> d' \<longrightarrow> set (rayCells center d rng) \<inter> set (rayCells center d' rng) = {}"
  shows "\<exists>m'. raysForEach center rng ds (m, ps) =
           Inr (m', ps @ map pointOf (concat (map (\<lambda>d. spec_ray m0 (rayCells center d rng)) ds))) \<and>
         wfGrid m' \<and>
         (\<forall>r c. inGrid r c \<longrightarrow>
            m' ! nat r ! nat c =
              (if (r, c) \<in> set (concat (map (\<lambda>d. spec_ray m0 (rayCells center d rng)) ds)) \<and>
                  m ! nat r ! nat c = SoftWall
               then Empty else m ! nat r ! nat c))"
  using assms
proof (induction ds arbitrary: m ps)
  case Nil
  then show ?case by simp
next
  case (Cons d ds)
  let ?ray = "spec_ray m0 (rayCells center d rng)"
  let ?rest = "concat (map (\<lambda>d. spec_ray m0 (rayCells center d rng)) ds)"
  have same: "spec_ray m (rayCells center d rng) = ?ray"
    using Cons.prems(2) by (intro spec_ray_agree) auto
  from rayLoop_spec [OF Cons.prems(1), of center d rng ps] same obtain m1 where
    r1: "rayLoop center d rng 1 (m, ps) = Inr (m1, ps @ map pointOf ?ray)" and
    wf1: "wfGrid m1" and
    t1: "\<forall>r c. inGrid r c \<longrightarrow>
            m1 ! nat r ! nat c = (if (r, c) \<in> set ?ray \<and> m ! nat r ! nat c = SoftWall
               then Empty else m ! nat r ! nat c)"
    by auto
  have disj: "\<forall>d'\<in>set ds. set (rayCells center d rng) \<inter> set (rayCells center d' rng) = {}"
    using Cons.prems(3,4) by auto
  have agree1: "\<forall>d'\<in>set ds. \<forall>(r, c)\<in>set (rayCells center d' rng).
      inGrid r c \<longrightarrow> m1 ! nat r ! nat c = m0 ! nat r ! nat c"
  proof (intro ballI, clarify)
    fix d' r c
    assume d': "d' \<in> set ds" and rc: "(r, c) \<in> set (rayCells center d' rng)" and ig: "inGrid r c"
    from disj d' rc have "(r, c) \<notin> set (rayCells center d rng)" by auto
    then have "(r, c) \<notin> set ?ray" using spec_ray_subset by blast
    with t1 ig have "m1 ! nat r ! nat c = m ! nat r ! nat c" by simp
    also have "\<dots> = m0 ! nat r ! nat c" using Cons.prems(2) d' rc ig by auto
    finally show "m1 ! nat r ! nat c = m0 ! nat r ! nat c" .
  qed
  have dist: "distinct ds" using Cons.prems(3) by simp
  have disj': "\<forall>d\<in>set ds. \<forall>d'\<in>set ds. d \<noteq> d' \<longrightarrow>
      set (rayCells center d rng) \<inter> set (rayCells center d' rng) = {}"
    using Cons.prems(4) by simp
  from Cons.IH [OF wf1 agree1 dist disj', of "ps @ map pointOf ?ray"] obtain m' where
    r2: "raysForEach center rng ds (m1, ps @ map pointOf ?ray) =
           Inr (m', (ps @ map pointOf ?ray) @ map pointOf ?rest)" and
    wf2: "wfGrid m'" and
    t2: "\<forall>r c. inGrid r c \<longrightarrow>
            m' ! nat r ! nat c = (if (r, c) \<in> set ?rest \<and> m1 ! nat r ! nat c = SoftWall
               then Empty else m1 ! nat r ! nat c)"
    by blast
  have "raysForEach center rng (d # ds) (m, ps) =
          Inr (m', ps @ map pointOf (concat (map (\<lambda>d. spec_ray m0 (rayCells center d rng)) (d # ds))))"
    using r1 r2 by simp
  moreover have "\<forall>r c. inGrid r c \<longrightarrow>
            m' ! nat r ! nat c =
              (if (r, c) \<in> set (concat (map (\<lambda>d. spec_ray m0 (rayCells center d rng)) (d # ds))) \<and>
                  m ! nat r ! nat c = SoftWall
               then Empty else m ! nat r ! nat c)"
    using t1 t2 by auto
  ultimately show ?case using wf2 by blast
qed

lemma dirs_disjoint:
  "d \<in> set dirs \<Longrightarrow> d' \<in> set dirs \<Longrightarrow> d \<noteq> d' \<Longrightarrow>
   set (rayCells center d rng) \<inter> set (rayCells center d' rng) = {}"
  by (auto simp: dirs_def rayCells_def rayCell_def)

lemma center_not_on_ray: "d \<in> set dirs \<Longrightarrow> center \<notin> set (rayCells center d rng)"
  by (auto simp: dirs_def rayCells_def rayCell_def prod_eq_iff)

lemma explodeBomb_spec:
  assumes "wfGrid (mapRef s)"
  shows "\<exists>s'. explodeBomb rv now bomb index s = Inr s' \<and>
           explosionsRef s' = explosionsRef s @
             [\<lparr>explosion_id = now,
               particles = map cellParticle
                 (spec_blast (mapRef s) (getGridPos (x bomb) (y bomb)) (bomb_range bomb)),
               explosion_timer = EXPLOSION_DURATION_MS\<rparr>] \<and>
           wfGrid (mapRef s') \<and>
           (\<forall>r c. inGrid r c \<longrightarrow>
              mapRef s' ! nat r ! nat c =
                (if (r, c) \<in> set (tl (spec_blast (mapRef s) (getGridPos (x bomb) (y bomb)) (bomb_range bomb))) \<and>
                    mapRef s ! nat r ! nat c = SoftWall
                 then Empty else mapRef s ! nat r ! nat c))"
proof -
  let ?center = "getGridPos (x bomb) (y bomb)"
  let ?rng = "bomb_range bomb"
  let ?m = "mapRef s"
  have dd: "distinct dirs" by (simp add: dirs_def)
  from raysForEach_spec [OF assms _ dd, of ?center ?rng ?m "[pointOf ?center]"] dirs_disjoint
  obtain m' where
    r: "raysForEach ?center ?rng dirs (?m, [pointOf ?center]) =
          Inr (m', [pointOf ?center] @
                   map pointOf (concat (map (\<lambda>d. spec_ray ?m (rayCells ?center d ?rng)) dirs)))" and
    wf: "wfGrid m'" and
    t: "\<forall>r c. inGrid r c \<longrightarrow>
            m' ! nat r ! nat c =
              (if (r, c) \<in> set (concat (map (\<lambda>d. spec_ray ?m (rayCells ?center d ?rng)) dirs)) \<and>
                  ?m ! nat r ! nat c = SoftWall
               then Empty else ?m ! nat r ! nat c)"
    by (auto simp del: raysForEach.simps)
  have wa: "map withAlpha (map pointOf cells) = map cellParticle cells" for cells
    by (simp add: withAlpha_def pointOf_def cellParticle_def particleAt_def)
  show ?thesis
    using r wf t wa [of "?center # concat (map (\<lambda>d. spec_ray ?m (rayCells ?center d ?rng)) dirs)"]
    by (auto simp: explodeBomb_def Let_def spec_blast_def pointOf_def simp del: raysForEach.simps)
qed

lemma spec_ray_nth:
  "distinct cells \<Longrightarrow> k < length cells \<Longrightarrow>
   cells ! k \<in> set (spec_ray m cells) \<longleftrightarrow>
     addableCell m (cells ! k) \<and> (\<forall>j<k. openCell m (cells ! j))"
proof (induction cells arbitrary: k)
  case Nil
  then show ?case by simp
next
  case (Cons cell cells)
  obtain r c where cell: "cell = (r, c)" by (cases cell) auto
  show ?case
  proof (cases k)
    case 0
    with cell show ?thesis
      by (auto simp: addableCell_def split: TileType.splits)
  next
    case (Suc k')
    with Cons.prems have k': "k' < length cells" and d: "distinct cells"
      and nin: "(r, c) \<notin> set cells"
      using cell by auto
    from nin nth_mem [OF k'] have ne: "cells ! k' \<noteq> (r, c)" by metis
    have all: "(\<forall>j<Suc k'. openCell m (((r, c) # cells) ! j)) \<longleftrightarrow>
               openCell m (r, c) \<and> (\<forall>j<k'. openCell m (cells ! j))"
      by (auto simp: less_Suc_eq_0_disj)
    show ?thesis
    proof (cases "openCell m (r, c)")
      case True
      then have "spec_ray m ((r, c) # cells) = (r, c) # spec_ray m cells"
        by (simp add: openCell_def)
      with Cons.IH [OF d k'] ne True all show ?thesis
        by (simp add: Suc cell)
    next
      case False
      then have "set (spec_ray m ((r, c) # cells)) \<subseteq> {(r, c)}"
        by (auto simp: openCell_def split: TileType.splits)
      with ne have "cells ! k' \<notin> set (spec_ray m ((r, c) # cells))" by auto
      with False all show ?thesis by (simp add: Suc cell)
    qed
  qed
qed

lemma rayCell_inj: "d \<in> set dirs \<Longrightarrow> rayCell center d i = rayCell center d j \<Longrightarrow> i = j"
  by (auto simp: dirs_def rayCell_def)

lemma distinct_rayCells: "d \<in> set dirs \<Longrightarrow> distinct (rayCells center d rng)"
  by (auto simp: rayCells_def distinct_map inj_on_def dest: rayCell_inj)

lemma rayCells_nth:
  "k < nat rng \<Longrightarrow> rayCells center d rng ! k = rayCell center d (1 + int k)"
  by (simp add: rayCells_def)

lemma ray_member:
  assumes "d \<in> set dirs" and "1 \<le> i"
  shows "rayCell center d i \<in> set (spec_ray m (rayCells center d rng)) \<longleftrightarrow>
           i \<le> rng \<and> addableCell m (rayCell center d i) \<and>
           (\<forall>j. 1 \<le> j \<and> j < i \<longrightarrow> openCell m (rayCell center d j))"
proof (cases "i \<le> rng")
  case False
  have "rayCell center d i \<notin> set (rayCells center d rng)"
  proof
    assume "rayCell center d i \<in> set (rayCells center d rng)"
    then obtain j where "1 \<le> j" "j \<le> rng" "rayCell center d i = rayCell center d j"
      by (auto simp: rayCells_def)
    then have "i = j" using rayCell_inj [OF assms(1)] by blast
    with \<open>j \<le> rng\<close> False show False by simp
  qed
  with False spec_ray_subset show ?thesis by blast
next
  case True
  define k where "k = nat (i - 1)"
  have k: "k < length (rayCells center d rng)" "k < nat rng" "i = 1 + int k"
    using True assms(2) by (auto simp: k_def rayCells_def)
  have cell: "rayCells center d rng ! k = rayCell center d i"
    using rayCells_nth [OF k(2)] k(3) by simp
  have all: "(\<forall>j<k. openCell m (rayCells center d rng ! j)) \<longleftrightarrow>
             (\<forall>j. 1 \<le> j \<and> j < i \<longrightarrow> openCell m (rayCell center d j))"
  proof
    assume l: "\<forall>j<k. openCell m (rayCells center d rng ! j)"
    show "\<forall>j. 1 \<le> j \<and> j < i \<longrightarrow> openCell m (rayCell center d j)"
    proof (intro allI impI)
      fix j assume j: "1 \<le> j \<and> j < i"
      then have "nat (j - 1) < k" "nat (j - 1) < nat rng" "j = 1 + int (nat (j - 1))"
        using k by auto
      with l rayCells_nth [of "nat (j - 1)" rng center d] show "openCell m (rayCell center d j)"
        by auto
    qed
  next
    assume r: "\<forall>j. 1 \<le> j \<and> j < i \<longrightarrow> openCell m (rayCell center d j)"
    show "\<forall>j<k. openCell m (rayCells center d rng ! j)"
    proof (intro allI impI)
      fix j assume "j < k"
      then have "j < nat rng" "1 \<le> 1 + int j \<and> 1 + int j < i" using k by auto
      with r rayCells_nth [of j rng center d] show "openCell m (rayCells center d rng ! j)"
        by auto
    qed
  qed
  from spec_ray_nth [OF distinct_rayCells [OF assms(1)] k(1), of m] cell all True
  show ?thesis by simp
qed

lemma other_ray: 
  "d \<in> set dirs \<Longrightarrow> d' \<in> set dirs \<Longrightarrow> d \<noteq> d' \<Longrightarrow> 1 \<le> i \<Longrightarrow>
   rayCell center d i \<notin> set (rayCells center d' rng)"
  by (auto simp: dirs_def rayCells_def rayCell_def)

lemma rayCell_not_center: "d \<in> set dirs \<Longrightarrow> 1 \<le> i \<Longrightarrow> rayCell center d i \<noteq> center"
  by (auto simp: dirs_def rayCell_def prod_eq_iff)

lemma blast_member:
  assumes "d \<in> set dirs" and "1 \<le> i"
  shows "rayCell center d i \<in> set (spec_blast m center rng) \<longleftrightarrow>
           i \<le> rng \<and> addableCell m (rayCell center d i) \<and>
           (\<forall>j. 1 \<le> j \<and> j < i \<longrightarrow> openCell m (rayCell center d j))"
proof -
  have "rayCell center d i \<in> set (spec_blast m center rng) \<longleftrightarrow>
        (\<exists>d'\<in>set dirs. rayCell center d i \<in> set (spec_ray m (rayCells center d' rng)))"
    using rayCell_not_center [OF assms] by (auto simp: spec_blast_def)
  also have "\<dots> \<longleftrightarrow> rayCell center d i \<in> set (spec_ray m (rayCells center d rng))"
    using assms other_ray [OF assms(1) _ _ assms(2)] spec_ray_subset by blast
  finally show ?thesis using ray_member [OF assms] by simp
qed

lemma blast_center_once: "count_list (spec_blast m center rng) center = 1"
proof -
  have "center \<notin> set (spec_ray m (rayCells center d rng))" if "d \<in> set dirs" for d
    using center_not_on_ray [OF that, of center rng] spec_ray_subset [of m "rayCells center d rng"]
    by blast
  then have "center \<notin> set (concat (map (\<lambda>d. spec_ray m (rayCells center d rng)) dirs))"
    by auto
  then show ?thesis by (simp add: spec_blast_def count_list_0_iff)
qed

text \<open>
  C1. On a map of the generated size a detonation returns, and the explosion it appends
  holds the particle cells \<open>blastOf\<close>: the center cell, once, followed by the four rays in
  the order up, down, left, right, each ray listed outward as the specification's rule
  \<open>spec_ray\<close> gives it. The \<open>i\<close>-th cell of a ray (\<open>i \<ge> 1\<close>) is a particle exactly when
  \<open>i\<close> is within the range, the cell is inside the grid and not a HardWall, and every
  nearer cell of the ray is inside the grid and Empty; so nothing at or beyond a HardWall
  or the grid's edge, and nothing beyond a SoftWall, is a particle. Afterwards every
  SoftWall among the ray particles is Empty and every other tile is as before.
\<close>

theorem explodeBomb_blast:
  assumes "wfGrid (mapRef s)"
  shows "\<exists>s'. explodeBomb rv now bomb index s = Inr s' \<and>
           explosionsRef s' = explosionsRef s @
             [\<lparr>explosion_id = now, particles = map cellParticle (blastOf s bomb),
               explosion_timer = EXPLOSION_DURATION_MS\<rparr>] \<and>
           count_list (blastOf s bomb) (getGridPos (x bomb) (y bomb)) = 1 \<and>
           (\<forall>d\<in>set dirs. \<forall>i\<ge>1.
              rayCell (getGridPos (x bomb) (y bomb)) d i \<in> set (blastOf s bomb) \<longleftrightarrow>
                i \<le> bomb_range bomb \<and>
                addableCell (mapRef s) (rayCell (getGridPos (x bomb) (y bomb)) d i) \<and>
                (\<forall>j. 1 \<le> j \<and> j < i \<longrightarrow> openCell (mapRef s) (rayCell (getGridPos (x bomb) (y bomb)) d j))) \<and>
           (\<forall>r c. inGrid r c \<longrightarrow>
              tileAt (mapRef s') r c =
                Inr (Some (if (r, c) \<in> set (tl (blastOf s bomb)) \<and> mapRef s ! nat r ! nat c = SoftWall
                           then Empty else mapRef s ! nat r ! nat c)))"
proof -
  from explodeBomb_spec [OF assms, of rv now bomb index] obtain s' where
    e: "explodeBomb rv now bomb index s = Inr s'" and
    p: "explosionsRef s' = explosionsRef s @
             [\<lparr>explosion_id = now, particles = map cellParticle (blastOf s bomb),
               explosion_timer = EXPLOSION_DURATION_MS\<rparr>]" and
    wf: "wfGrid (mapRef s')" and
    t: "\<forall>r c. inGrid r c \<longrightarrow>
              mapRef s' ! nat r ! nat c =
                (if (r, c) \<in> set (tl (blastOf s bomb)) \<and> mapRef s ! nat r ! nat c = SoftWall
                 then Empty else mapRef s ! nat r ! nat c)"
    unfolding blastOf_def by blast
  have m: "\<forall>d\<in>set dirs. \<forall>i\<ge>1.
              rayCell (getGridPos (x bomb) (y bomb)) d i \<in> set (blastOf s bomb) \<longleftrightarrow>
                i \<le> bomb_range bomb \<and>
                addableCell (mapRef s) (rayCell (getGridPos (x bomb) (y bomb)) d i) \<and>
                (\<forall>j. 1 \<le> j \<and> j < i \<longrightarrow> openCell (mapRef s) (rayCell (getGridPos (x bomb) (y bomb)) d j))"
    unfolding blastOf_def using blast_member by blast
  have c: "count_list (blastOf s bomb) (getGridPos (x bomb) (y bomb)) = 1"
    unfolding blastOf_def by (rule blast_center_once)
  have t': "\<forall>r c. inGrid r c \<longrightarrow>
              tileAt (mapRef s') r c =
                Inr (Some (if (r, c) \<in> set (tl (blastOf s bomb)) \<and> mapRef s ! nat r ! nat c = SoftWall
                           then Empty else mapRef s ! nat r ! nat c))"
    using t wfGrid_tileAt [OF wf] by simp
  from e p c m t' show ?thesis by blast
qed

lemma rubble_tile:
  "r < 15 \<Longrightarrow> c < 15 \<Longrightarrow>
   rubbleArena ! r ! c =
     (if r = 2 \<and> c = 1 then SoftWall else if forcedWall r c then HardWall else Empty)"
proof -
  assume b: "r < 15" "c < 15"
  then have "inGrid (int r) (int c)" by (simp add: inGrid_def)
  from tile_setTile [OF wfGrid_openArena _ this, of 2 1 SoftWall] b show ?thesis
    by (simp add: rubbleArena_def inGrid_def) (simp add: openArena_def)
qed

lemma wfGrid_rubbleArena: "wfGrid rubbleArena"
  unfolding rubbleArena_def using wfGrid_openArena by (rule wfGrid_setTile)

lemma blastOf_rubbleWorld:
  "blastOf rubbleWorld (bombAt 3 1 0) = [(3, 1), (2, 1), (4, 1), (5, 1), (3, 2), (3, 3)]"
  by (simp add: blastOf_def spec_blast_def rubbleWorld_def bombAt_def getGridPos_def dirs_def
      rayCells_def rayCell_def upto.simps inGrid_def rubble_tile forcedWall_def)

theorem explodeBomb_blast_witness:
  "wfGrid (mapRef rubbleWorld) \<and>
   tileAt (mapRef rubbleWorld) 2 1 = Inr (Some SoftWall) \<and>
   (\<exists>s'. explodeBomb Keyboard 2000 (bombAt 3 1 0) 0 rubbleWorld = Inr s' \<and>
      particles (last (explosionsRef s')) =
        map cellParticle [(3, 1), (2, 1), (4, 1), (5, 1), (3, 2), (3, 3)] \<and>
      tileAt (mapRef s') 2 1 = Inr (Some Empty))"
proof -
  have wf: "wfGrid (mapRef rubbleWorld)" by (simp add: rubbleWorld_def wfGrid_rubbleArena)
  have soft: "tileAt (mapRef rubbleWorld) 2 1 = Inr (Some SoftWall)"
    using wfGrid_tileAt [OF wf, of 2 1] rubble_tile [of 2 1]
    by (simp add: inGrid_def rubbleWorld_def)
  from explodeBomb_blast [OF wf, of Keyboard 2000 "bombAt 3 1 0" 0] obtain s' where
    e: "explodeBomb Keyboard 2000 (bombAt 3 1 0) 0 rubbleWorld = Inr s'" and
    p: "explosionsRef s' = explosionsRef rubbleWorld @
             [\<lparr>explosion_id = 2000, particles = map cellParticle (blastOf rubbleWorld (bombAt 3 1 0)),
               explosion_timer = EXPLOSION_DURATION_MS\<rparr>]" and
    t: "\<forall>r c. inGrid r c \<longrightarrow>
              tileAt (mapRef s') r c =
                Inr (Some (if (r, c) \<in> set (tl (blastOf rubbleWorld (bombAt 3 1 0))) \<and>
                              mapRef rubbleWorld ! nat r ! nat c = SoftWall
                           then Empty else mapRef rubbleWorld ! nat r ! nat c))"
    by blast
  have "inGrid 2 1" by (simp add: inGrid_def)
  with t have "tileAt (mapRef s') 2 1 =
      Inr (Some (if (2, 1) \<in> set (tl (blastOf rubbleWorld (bombAt 3 1 0))) \<and>
                    mapRef rubbleWorld ! nat 2 ! nat 1 = SoftWall
                 then Empty else mapRef rubbleWorld ! nat 2 ! nat 1))"
    by blast
  moreover have "mapRef rubbleWorld ! nat 2 ! nat 1 = SoftWall"
    using rubble_tile [of 2 1] by (simp add: rubbleWorld_def)
  ultimately have "tileAt (mapRef s') 2 1 = Inr (Some Empty)"
    by (simp add: blastOf_rubbleWorld)
  with wf soft e p show ?thesis by (auto simp: blastOf_rubbleWorld)
qed

subsection \<open>Timers and steps of a tick\<close>

lemma update_phases:
  assumes "gameStatus s = Playing" and "update rv dt rnd now s = Inr s'"
  obtains s2 s4 es s6 where
    "playerPhase rv s = Inr s2"
    "bombsLoop rv dt now (length (bombsRef (bombPhase now s2))) (bombPhase now s2) = Inr s4"
    "enemiesForEach rv rnd 0 (enemiesRef (explosionsLoop dt (length (explosionsRef s4)) s4))
           (explosionsLoop dt (length (explosionsRef s4)) s4) = Inr (es, s6)"
    "s' = (if es = [] then s6\<lparr>enemiesRef := es, gameStatus := Won\<rparr> else s6\<lparr>enemiesRef := es\<rparr>)"
  using assms
  by (auto simp: update_def playerPhase_def bombPhase_def Let_def
      split: sum.splits prod.splits if_splits)

lemma playerPhase_frame:
  assumes "playerPhase rv s = Inr s2"
  shows "s2 = s\<lparr>playerRef := (playerRef s)\<lparr>x := x (playerRef s2), y := y (playerRef s2)\<rparr>\<rparr>"
proof -
  obtain dx dy where d: "desiredStep (inputsRef s) (speed (playerRef s)) = (dx, dy)"
    by (cases "desiredStep (inputsRef s) (speed (playerRef s))") auto
  from assms d obtain s1 where
    m1: "(if dx \<noteq> 0 then movePlayerX rv dx s else Inr s) = Inr s1" and
    m2: "(if dy \<noteq> 0 then movePlayerY rv dy s1 else Inr s1) = Inr s2"
    by (auto simp: playerPhase_def split: sum.splits)
  have f1: "s1 = s\<lparr>playerRef := (playerRef s)\<lparr>x := x (playerRef s1), y := y (playerRef s1)\<rparr>\<rparr>"
  proof (cases "dx \<noteq> 0")
    case True
    with m1 show ?thesis using movePlayerX_frame by simp
  next
    case False
    with m1 show ?thesis by simp
  qed
  have f2: "s2 = s1\<lparr>playerRef := (playerRef s1)\<lparr>x := x (playerRef s2), y := y (playerRef s2)\<rparr>\<rparr>"
  proof (cases "dy \<noteq> 0")
    case True
    with m2 show ?thesis using movePlayerY_frame by simp
  next
    case False
    with m2 show ?thesis by simp
  qed
  from f1 obtain a b where a: "s1 = s\<lparr>playerRef := (playerRef s)\<lparr>x := a, y := b\<rparr>\<rparr>"
    by blast
  from f2 obtain c d where c: "s2 = s1\<lparr>playerRef := (playerRef s1)\<lparr>x := c, y := d\<rparr>\<rparr>"
    by blast
  show ?thesis unfolding c a by simp
qed

lemma bombPhase_fields:
  "mapRef (bombPhase now s) = mapRef s" "explosionsRef (bombPhase now s) = explosionsRef s"
  "enemiesRef (bombPhase now s) = enemiesRef s" "gameStatus (bombPhase now s) = gameStatus s"
  "x (playerRef (bombPhase now s)) = x (playerRef s)" "y (playerRef (bombPhase now s)) = y (playerRef s)"
  "alive (playerRef (bombPhase now s)) = alive (playerRef s)"
  by (simp_all add: bombPhase_def placeBomb_def Let_def)

lemma bombPhase_bombs:
  "\<exists>placed. (placed = [] \<or> (\<exists>b. placed = [b] \<and> bomb_timer b = BOMB_TIMER_MS)) \<and>
     bombsRef (bombPhase now s) = bombsRef s @ placed"
  by (simp add: bombPhase_def placeBomb_def Let_def)

lemma explodeBomb_explosion:
  "explodeBomb rv now bomb index s = Inr s' \<Longrightarrow>
   \<exists>e. explosionsRef s' = explosionsRef s @ [e] \<and> explosion_timer e = EXPLOSION_DURATION_MS"
  by (auto simp: explodeBomb_def Let_def split: sum.splits prod.splits if_splits)

lemma explodeBomb_player:
  "explodeBomb rv now bomb index s = Inr s' \<Longrightarrow>
   x (playerRef s') = x (playerRef s) \<and> y (playerRef s') = y (playerRef s) \<and>
   alive (playerRef s') = alive (playerRef s)"
  by (auto simp: explodeBomb_def Let_def split: sum.splits prod.splits if_splits)

lemma bombsLoop_frame:
  "bombsLoop rv dt now n s = Inr s' \<Longrightarrow>
   enemiesRef s' = enemiesRef s \<and> gameStatus s' = gameStatus s \<and> inputsRef s' = inputsRef s \<and>
   x (playerRef s') = x (playerRef s) \<and> y (playerRef s') = y (playerRef s) \<and>
   alive (playerRef s') = alive (playerRef s)"
proof (induction n arbitrary: s)
  case 0
  then show ?case by simp
next
  case (Suc n)
  let ?b = "(bombsRef s ! n)\<lparr>bomb_timer := bomb_timer (bombsRef s ! n) - dt\<rparr>"
  let ?s1 = "s\<lparr>bombsRef := (bombsRef s)[n := ?b]\<rparr>"
  show ?case
  proof (cases "bomb_timer ?b \<le> 0")
    case True
    with Suc.prems obtain s2 where e: "explodeBomb rv now ?b n ?s1 = Inr s2"
      and l: "bombsLoop rv dt now n s2 = Inr s'"
      by (auto simp: Let_def split: sum.splits)
    from Suc.IH [OF l] explodeBomb_fields(3,4,5) [OF e] explodeBomb_player [OF e]
    show ?thesis by simp
  next
    case False
    with Suc.prems have "bombsLoop rv dt now n ?s1 = Inr s'" by (simp add: Let_def)
    from Suc.IH [OF this] show ?thesis by simp
  qed
qed

lemma bombsLoop_bombsRef:
  "bombsLoop rv dt now n s = Inr s' \<Longrightarrow> n \<le> length (bombsRef s) \<Longrightarrow>
   bombsRef s' = map (tickBomb dt) (filter (\<lambda>b. bomb_timer b - dt > 0) (take n (bombsRef s)))
                 @ drop n (bombsRef s)"
proof (induction n arbitrary: s)
  case 0
  then show ?case by simp
next
  case (Suc n)
  let ?b = "(bombsRef s ! n)\<lparr>bomb_timer := bomb_timer (bombsRef s ! n) - dt\<rparr>"
  let ?s1 = "s\<lparr>bombsRef := (bombsRef s)[n := ?b]\<rparr>"
  from Suc.prems have n: "n < length (bombsRef s)" by simp
  have tk: "take (Suc n) (bombsRef s) = take n (bombsRef s) @ [bombsRef s ! n]"
    using n by (simp add: take_Suc_conv_app_nth)
  show ?case
  proof (cases "bomb_timer ?b \<le> 0")
    case True
    with Suc.prems obtain s2 where e: "explodeBomb rv now ?b n ?s1 = Inr s2"
      and l: "bombsLoop rv dt now n s2 = Inr s'"
      by (auto simp: Let_def split: sum.splits)
    have b2: "bombsRef s2 = take n (bombsRef s) @ drop (Suc n) (bombsRef s)"
      using explodeBomb_fields(1) [OF e] by (simp add: splice1_def)
    have "n \<le> length (bombsRef s2)" using n b2 by simp
    from Suc.IH [OF l this] b2 n True show ?thesis
      by (simp add: tk)
  next
    case False
    with Suc.prems have l: "bombsLoop rv dt now n ?s1 = Inr s'" by (simp add: Let_def)
    have "n \<le> length (bombsRef ?s1)" using n by simp
    from Suc.IH [OF l this] n False show ?thesis
      by (simp add: tk tickBomb_def upd_conv_take_nth_drop Cons_nth_drop_Suc not_le)
  qed
qed

lemma bombsLoop_explosions:
  "bombsLoop rv dt now n s = Inr s' \<Longrightarrow>
   \<exists>created. (\<forall>e\<in>set created. explosion_timer e = EXPLOSION_DURATION_MS) \<and>
     explosionsRef s' = explosionsRef s @ created"
proof (induction n arbitrary: s)
  case 0
  then show ?case by simp
next
  case (Suc n)
  let ?b = "(bombsRef s ! n)\<lparr>bomb_timer := bomb_timer (bombsRef s ! n) - dt\<rparr>"
  let ?s1 = "s\<lparr>bombsRef := (bombsRef s)[n := ?b]\<rparr>"
  show ?case
  proof (cases "bomb_timer ?b \<le> 0")
    case True
    with Suc.prems obtain s2 where e: "explodeBomb rv now ?b n ?s1 = Inr s2"
      and l: "bombsLoop rv dt now n s2 = Inr s'"
      by (auto simp: Let_def split: sum.splits)
    from explodeBomb_explosion [OF e] obtain e1 where
      e1: "explosionsRef s2 = explosionsRef s @ [e1]" "explosion_timer e1 = EXPLOSION_DURATION_MS"
      by auto
    from Suc.IH [OF l] obtain cr where
      cr: "\<forall>e\<in>set cr. explosion_timer e = EXPLOSION_DURATION_MS" "explosionsRef s' = explosionsRef s2 @ cr"
      by auto
    show ?thesis
      by (rule exI [of _ "e1 # cr"]) (simp add: e1 cr)
  next
    case False
    with Suc.prems have "bombsLoop rv dt now n ?s1 = Inr s'" by (simp add: Let_def)
    from Suc.IH [OF this] show ?thesis by simp
  qed
qed

lemma enemyHitLoop_enemies:
  "set (enemiesRef (enemyHitLoop p n s)) \<subseteq> set (enemiesRef s)"
proof (induction n arbitrary: s)
  case 0
  show ?case by simp
next
  case (Suc n)
  let ?hit = "s\<lparr>enemiesRef := splice1 n (enemiesRef s)\<rparr>"
  have "set (enemiesRef (enemyHitLoop p n ?hit)) \<subseteq> set (enemiesRef ?hit)" by (rule Suc.IH)
  moreover have "set (enemiesRef ?hit) \<subseteq> set (enemiesRef s)" by (simp add: set_splice1)
  moreover have "set (enemiesRef (enemyHitLoop p n s)) \<subseteq> set (enemiesRef s)" by (rule Suc.IH)
  ultimately show ?case by (auto simp: Let_def)
qed

lemma hitParticle_enemies: "set (enemiesRef (hitParticle s p)) \<subseteq> set (enemiesRef s)"
proof -
  have "set (enemiesRef (enemyHitLoop p n s1)) \<subseteq> set (enemiesRef s)"
    if "enemiesRef s1 = enemiesRef s" for s1 n
    using enemyHitLoop_enemies [of p n s1] that by simp
  then show ?thesis by (simp add: hitParticle_def Let_def)
qed

lemma foldl_hitParticle_enemies:
  "set (enemiesRef (foldl hitParticle s ps)) \<subseteq> set (enemiesRef s)"
proof (induction ps arbitrary: s)
  case Nil
  show ?case by simp
next
  case (Cons p ps)
  from Cons.IH [of "hitParticle s p"] hitParticle_enemies [of s p] show ?case by auto
qed

lemma explosionsLoop_enemies:
  "set (enemiesRef (explosionsLoop dt n s)) \<subseteq> set (enemiesRef s)"
proof (induction n arbitrary: s)
  case 0
  show ?case by simp
next
  case (Suc n)
  let ?e = "(explosionsRef s ! n)\<lparr>explosion_timer := explosion_timer (explosionsRef s ! n) - dt\<rparr>"
  let ?s1 = "s\<lparr>explosionsRef := (explosionsRef s)[n := ?e]\<rparr>"
  show ?case
  proof (cases "explosion_timer ?e \<le> 0")
    case True
    with Suc.IH [of "?s1\<lparr>explosionsRef := splice1 n (explosionsRef ?s1)\<rparr>"] show ?thesis
      by (simp add: Let_def)
  next
    case False
    with Suc.IH [of "foldl hitParticle ?s1 (particles ?e)"]
      foldl_hitParticle_enemies [of ?s1 "particles ?e"]
    show ?thesis by (auto simp: Let_def)
  qed
qed

lemma explosionsLoop_explosionsRef:
  "n \<le> length (explosionsRef s) \<Longrightarrow>
   explosionsRef (explosionsLoop dt n s) =
     map (tickExplosion dt) (filter (\<lambda>e. explosion_timer e - dt > 0) (take n (explosionsRef s)))
       @ drop n (explosionsRef s)"
proof (induction n arbitrary: s)
  case 0
  then show ?case by simp
next
  case (Suc n)
  let ?e = "(explosionsRef s ! n)\<lparr>explosion_timer := explosion_timer (explosionsRef s ! n) - dt\<rparr>"
  let ?s1 = "s\<lparr>explosionsRef := (explosionsRef s)[n := ?e]\<rparr>"
  from Suc.prems have n: "n < length (explosionsRef s)" by simp
  have tk: "take (Suc n) (explosionsRef s) = take n (explosionsRef s) @ [explosionsRef s ! n]"
    using n by (simp add: take_Suc_conv_app_nth)
  show ?case
  proof (cases "explosion_timer ?e \<le> 0")
    case True
    let ?s2 = "?s1\<lparr>explosionsRef := splice1 n (explosionsRef ?s1)\<rparr>"
    have b2: "explosionsRef ?s2 = take n (explosionsRef s) @ drop (Suc n) (explosionsRef s)"
      by (simp add: splice1_def)
    have "n \<le> length (explosionsRef ?s2)" using n by (simp add: splice1_def)
    from Suc.IH [OF this] b2 n True show ?thesis
      by (simp add: tk Let_def)
  next
    case False
    let ?s2 = "foldl hitParticle ?s1 (particles ?e)"
    have b2: "explosionsRef ?s2 = (explosionsRef s)[n := ?e]"
      by (simp add: foldl_hitParticle_frame)
    have "n \<le> length (explosionsRef ?s2)" using n b2 by simp
    from Suc.IH [OF this] b2 n False show ?thesis
      by (simp add: tk Let_def tickExplosion_def upd_conv_take_nth_drop Cons_nth_drop_Suc not_le)
  qed
qed

lemma enemy_direction_update [simp]:
  "x (e\<lparr>direction := d\<rparr>) = x (e :: Enemy)" "y (e\<lparr>direction := d\<rparr>) = y (e :: Enemy)"
  by (cases e, simp)+

lemma enemyStep_moved:
  "enemyStep rv rnd k enemy s = Inr (enemy', k', s') \<Longrightarrow> enemyMoved enemy enemy'"
  by (auto simp: enemyStep_def enemyMoved_def Let_def split: sum.splits if_splits prod.splits)

lemma enemiesForEach_moved:
  "enemiesForEach rv rnd k es s = Inr (es', s') \<Longrightarrow> list_all2 enemyMoved es es'"
proof (induction es arbitrary: k s es')
  case Nil
  then show ?case by simp
next
  case (Cons enemy es)
  from Cons.prems obtain enemy1 k1 s1 es1 where
    st: "enemyStep rv rnd k enemy s = Inr (enemy1, k1, s1)" and
    re: "enemiesForEach rv rnd k1 es s1 = Inr (es1, s')" and
    eq: "es' = enemy1 # es1"
    by (auto split: sum.splits prod.splits)
  from enemyStep_moved [OF st] Cons.IH [OF re] eq show ?case by simp
qed

lemma strip_alive_pos:
  assumes "p'\<lparr>alive := True\<rparr> = (p :: Player)\<lparr>alive := True\<rparr>"
  shows "x p' = x p \<and> y p' = y p"
proof -
  have "x p' = x (p'\<lparr>alive := True\<rparr>)" "y p' = y (p'\<lparr>alive := True\<rparr>)" by simp_all
  then show ?thesis unfolding assms by simp
qed

lemma update_player_position:
  assumes "gameStatus s = Playing" and "update rv dt rnd now s = Inr s'"
  shows "\<exists>s2. playerPhase rv s = Inr s2 \<and>
           x (playerRef s') = x (playerRef s2) \<and> y (playerRef s') = y (playerRef s2)"
proof -
  from assms obtain s2 s4 es s6 where
    p: "playerPhase rv s = Inr s2" and
    b: "bombsLoop rv dt now (length (bombsRef (bombPhase now s2))) (bombPhase now s2) = Inr s4" and
    e: "enemiesForEach rv rnd 0 (enemiesRef (explosionsLoop dt (length (explosionsRef s4)) s4))
           (explosionsLoop dt (length (explosionsRef s4)) s4) = Inr (es, s6)" and
    f: "s' = (if es = [] then s6\<lparr>enemiesRef := es, gameStatus := Won\<rparr> else s6\<lparr>enemiesRef := es\<rparr>)"
    by (rule update_phases)
  let ?s5 = "explosionsLoop dt (length (explosionsRef s4)) s4"
  have "x (playerRef s4) = x (playerRef s2) \<and> y (playerRef s4) = y (playerRef s2)"
    using bombsLoop_frame [OF b] by (simp add: bombPhase_fields)
  moreover have "x (playerRef ?s5) = x (playerRef s4) \<and> y (playerRef ?s5) = y (playerRef s4)"
    using explosionsLoop_frame [of dt "length (explosionsRef s4)" s4] strip_alive_pos by blast
  moreover have "x (playerRef s6) = x (playerRef ?s5) \<and> y (playerRef s6) = y (playerRef ?s5)"
    using enemiesForEach_frame [OF e] strip_alive_pos by blast
  moreover have "playerRef s' = playerRef s6" using f by simp
  ultimately show ?thesis using p by simp
qed

lemma tick_effects:
  assumes "gameStatus s = Playing" and "update rv dt rnd now s = Inr s'"
  shows "(\<exists>placed. (placed = [] \<or> (\<exists>b. placed = [b] \<and> bomb_timer b = BOMB_TIMER_MS)) \<and>
            bombsRef s' = map (tickBomb dt) (filter (\<lambda>b. bomb_timer b - dt > 0) (bombsRef s @ placed))) \<and>
         (\<exists>created. (\<forall>e\<in>set created. explosion_timer e = EXPLOSION_DURATION_MS) \<and>
            explosionsRef s' =
              map (tickExplosion dt) (filter (\<lambda>e. explosion_timer e - dt > 0) (explosionsRef s @ created))) \<and>
         (\<forall>dt' rnd' now' s''. update rv dt' rnd' now' s = Inr s'' \<longrightarrow>
            x (playerRef s'') = x (playerRef s') \<and> y (playerRef s'') = y (playerRef s')) \<and>
         (\<forall>e'\<in>set (enemiesRef s'). \<exists>e\<in>set (enemiesRef s). enemyMoved e e')"
proof (intro conjI)
  from assms obtain s2 s4 es s6 where
    p: "playerPhase rv s = Inr s2" and
    b: "bombsLoop rv dt now (length (bombsRef (bombPhase now s2))) (bombPhase now s2) = Inr s4" and
    e: "enemiesForEach rv rnd 0 (enemiesRef (explosionsLoop dt (length (explosionsRef s4)) s4))
           (explosionsLoop dt (length (explosionsRef s4)) s4) = Inr (es, s6)" and
    f: "s' = (if es = [] then s6\<lparr>enemiesRef := es, gameStatus := Won\<rparr> else s6\<lparr>enemiesRef := es\<rparr>)"
    by (rule update_phases)
  let ?s3 = "bombPhase now s2"
  let ?s5 = "explosionsLoop dt (length (explosionsRef s4)) s4"
  have s2: "bombsRef s2 = bombsRef s" "explosionsRef s2 = explosionsRef s" "enemiesRef s2 = enemiesRef s"
    by (subst playerPhase_frame [OF p], simp)+
  obtain placed where pl: "placed = [] \<or> (\<exists>b. placed = [b] \<and> bomb_timer b = BOMB_TIMER_MS)"
    "bombsRef ?s3 = bombsRef s2 @ placed"
    using bombPhase_bombs [of now s2] by blast
  have b4: "bombsRef s4 = map (tickBomb dt) (filter (\<lambda>b. bomb_timer b - dt > 0) (bombsRef ?s3))"
    using bombsLoop_bombsRef [OF b] by simp
  have b': "bombsRef s' = bombsRef s4"
    using f enemiesForEach_frame [OF e] explosionsLoop_frame [of dt "length (explosionsRef s4)" s4]
    by simp
  show "\<exists>placed. (placed = [] \<or> (\<exists>b. placed = [b] \<and> bomb_timer b = BOMB_TIMER_MS)) \<and>
            bombsRef s' = map (tickBomb dt) (filter (\<lambda>b. bomb_timer b - dt > 0) (bombsRef s @ placed))"
    using pl b4 b' s2 by auto
  obtain created where cr: "\<forall>e\<in>set created. explosion_timer e = EXPLOSION_DURATION_MS"
    "explosionsRef s4 = explosionsRef ?s3 @ created"
    using bombsLoop_explosions [OF b] by blast
  have e5: "explosionsRef ?s5 =
     map (tickExplosion dt) (filter (\<lambda>e. explosion_timer e - dt > 0) (explosionsRef s4))"
    using explosionsLoop_explosionsRef [of "length (explosionsRef s4)" s4 dt] by simp
  have e': "explosionsRef s' = explosionsRef ?s5"
    using f enemiesForEach_frame [OF e] by simp
  show "\<exists>created. (\<forall>e\<in>set created. explosion_timer e = EXPLOSION_DURATION_MS) \<and>
            explosionsRef s' =
              map (tickExplosion dt) (filter (\<lambda>e. explosion_timer e - dt > 0) (explosionsRef s @ created))"
    using cr e5 e' s2 by (auto simp: bombPhase_fields)
  show "\<forall>dt' rnd' now' s''. update rv dt' rnd' now' s = Inr s'' \<longrightarrow>
            x (playerRef s'') = x (playerRef s') \<and> y (playerRef s'') = y (playerRef s')"
    using update_player_position [OF assms] update_player_position [OF assms(1)] by fastforce
  have sub: "set (enemiesRef ?s5) \<subseteq> set (enemiesRef s)"
    using explosionsLoop_enemies [of dt "length (explosionsRef s4)" s4] bombsLoop_frame [OF b] s2
    by (simp add: bombPhase_fields)
  have mv: "list_all2 enemyMoved (enemiesRef ?s5) es" using enemiesForEach_moved [OF e] .
  have en: "enemiesRef s' = es" using f by simp
  show "\<forall>e'\<in>set (enemiesRef s'). \<exists>e\<in>set (enemiesRef s). enemyMoved e e'"
  proof
    fix e' assume "e' \<in> set (enemiesRef s')"
    with en have "e' \<in> set es" by simp
    then obtain i where i: "i < length es" "es ! i = e'" by (auto simp: in_set_conv_nth)
    with mv have "i < length (enemiesRef ?s5)" "enemyMoved (enemiesRef ?s5 ! i) e'"
      by (auto simp: list_all2_conv_all_nth)
    with sub show "\<exists>e\<in>set (enemiesRef s). enemyMoved e e'"
      by (meson nth_mem subsetD)
  qed
qed

subsection \<open>A tick returns\<close>

text \<open>On a map of the generated size no phase of \<open>update\<close> throws.\<close>

lemma isCollision_returns:
  "wfGrid (mapRef s) \<Longrightarrow> \<exists>b. isCollision s tx ty w h cx cy = Inr b"
proof -
  assume "wfGrid (mapRef s)"
  then obtain t where "tileScan (mapRef s) (targetCells (entityRect tx ty w h)) = Inr t"
    using tileScan_wf by blast
  then show ?thesis by (cases t) (auto simp: isCollision_def)
qed

lemma movePlayerX_returns:
  assumes "wfGrid (mapRef s)"
  shows "\<exists>s'. movePlayerX rv dx s = Inr s'"
proof -
  note c = isCollision_returns [OF assms]
  obtain b1 where b1: "isCollision s (x (playerRef s) + dx) (y (playerRef s)) (width (playerRef s))
      (height (playerRef s)) (x (playerRef s)) (y (playerRef s)) = Inr b1"
    using c by blast
  obtain b2 where b2: "isCollision s (x (playerRef s) + dx) (y (playerRef s) - speed (playerRef s))
      (width (playerRef s)) (height (playerRef s)) (x (playerRef s)) (y (playerRef s)) = Inr b2"
    using c by blast
  obtain b3 where b3: "isCollision s (x (playerRef s) + dx) (y (playerRef s) + speed (playerRef s))
      (width (playerRef s)) (height (playerRef s)) (x (playerRef s)) (y (playerRef s)) = Inr b3"
    using c by blast
  show ?thesis
    by (cases b1) (simp_all add: movePlayerX_def Let_def b1 b2 b3)
qed

lemma movePlayerY_returns:
  assumes "wfGrid (mapRef s)"
  shows "\<exists>s'. movePlayerY rv dy s = Inr s'"
proof -
  note c = isCollision_returns [OF assms]
  obtain b1 where b1: "isCollision s (x (playerRef s)) (y (playerRef s) + dy) (width (playerRef s))
      (height (playerRef s)) (x (playerRef s)) (y (playerRef s)) = Inr b1"
    using c by blast
  obtain b2 where b2: "isCollision s (x (playerRef s) - speed (playerRef s)) (y (playerRef s) + dy)
      (width (playerRef s)) (height (playerRef s)) (x (playerRef s)) (y (playerRef s)) = Inr b2"
    using c by blast
  obtain b3 where b3: "isCollision s (x (playerRef s) + speed (playerRef s)) (y (playerRef s) + dy)
      (width (playerRef s)) (height (playerRef s)) (x (playerRef s)) (y (playerRef s)) = Inr b3"
    using c by blast
  show ?thesis
    by (cases b1) (simp_all add: movePlayerY_def Let_def b1 b2 b3)
qed

lemma playerPhase_returns:
  assumes "wfGrid (mapRef s)"
  shows "\<exists>s2. playerPhase rv s = Inr s2"
proof -
  obtain dx dy where d: "desiredStep (inputsRef s) (speed (playerRef s)) = (dx, dy)"
    by (cases "desiredStep (inputsRef s) (speed (playerRef s))") auto
  obtain s1 where m1: "(if dx \<noteq> 0 then movePlayerX rv dx s else Inr s) = Inr s1"
    using movePlayerX_returns [OF assms, of rv dx] by (cases "dx \<noteq> 0") auto
  have "mapRef s1 = mapRef s"
  proof (cases "dx \<noteq> 0")
    case True
    with m1 have "movePlayerX rv dx s = Inr s1" by simp
    from arg_cong [OF movePlayerX_frame [OF this], of mapRef] show ?thesis by simp
  next
    case False
    with m1 show ?thesis by simp
  qed
  with assms have "wfGrid (mapRef s1)" by simp
  then obtain s2 where "(if dy \<noteq> 0 then movePlayerY rv dy s1 else Inr s1) = Inr s2"
    using movePlayerY_returns [of s1 rv dy] by (cases "dy \<noteq> 0") auto
  with d m1 show ?thesis by (simp add: playerPhase_def)
qed

lemma explodeBomb_returns:
  "wfGrid (mapRef s) \<Longrightarrow> \<exists>s'. explodeBomb rv now bomb index s = Inr s' \<and> wfGrid (mapRef s')"
  using explodeBomb_spec [of s rv now bomb index] by blast

lemma bombsLoop_returns:
  "wfGrid (mapRef s) \<Longrightarrow> \<exists>s'. bombsLoop rv dt now n s = Inr s' \<and> wfGrid (mapRef s')"
proof (induction n arbitrary: s)
  case 0
  then show ?case by simp
next
  case (Suc n)
  let ?b = "(bombsRef s ! n)\<lparr>bomb_timer := bomb_timer (bombsRef s ! n) - dt\<rparr>"
  let ?s1 = "s\<lparr>bombsRef := (bombsRef s)[n := ?b]\<rparr>"
  have wf1: "wfGrid (mapRef ?s1)" using Suc.prems by simp
  show ?case
  proof (cases "bomb_timer ?b \<le> 0")
    case True
    from explodeBomb_returns [OF wf1, of rv now ?b n] obtain s2 where
      e: "explodeBomb rv now ?b n ?s1 = Inr s2" and wf2: "wfGrid (mapRef s2)"
      by blast
    from Suc.IH [OF wf2] e True show ?thesis by (simp add: Let_def)
  next
    case False
    with Suc.IH [OF wf1] show ?thesis by (simp add: Let_def)
  qed
qed

lemma enemyStep_returns:
  assumes "wfGrid (mapRef s)"
  shows "\<exists>enemy' k' s'. enemyStep rv rnd k enemy s = Inr (enemy', k', s')"
proof -
  let ?s1 = "if hypot (x (playerRef s) - x enemy) (y (playerRef s) - y enemy) < TILE_SIZE * (7 / 10)
             then s\<lparr>playerRef := (playerRef s)\<lparr>alive := False\<rparr>, gameStatus := Lost\<rparr> else s"
  have "wfGrid (mapRef ?s1)" using assms by simp
  from isCollision_returns [OF this] obtain b where
    "isCollision ?s1 (x enemy + x (direction enemy) * enemy_speed enemy)
       (y enemy + y (direction enemy) * enemy_speed enemy) (width enemy) (height enemy)
       (x enemy) (y enemy) = Inr b"
    by blast
  then show ?thesis
    by (cases b) (simp_all add: enemyStep_def Let_def)
qed

lemma enemiesForEach_returns:
  "wfGrid (mapRef s) \<Longrightarrow> \<exists>es' s'. enemiesForEach rv rnd k es s = Inr (es', s')"
proof (induction es arbitrary: k s)
  case Nil
  show ?case by simp
next
  case (Cons enemy es)
  from enemyStep_returns [OF Cons.prems, of rv rnd k enemy] obtain enemy1 k1 s1 where
    st: "enemyStep rv rnd k enemy s = Inr (enemy1, k1, s1)" by blast
  have "wfGrid (mapRef s1)" using enemyStep_frame [OF st] Cons.prems by simp
  from Cons.IH [OF this, of k1] st show ?case by auto
qed

lemma update_returns:
  assumes "wfGrid (mapRef s)"
  shows "\<exists>s'. update rv dt rnd now s = Inr s'"
proof (cases "gameStatus s = Playing")
  case False
  then show ?thesis by (simp add: update_def)
next
  case True
  obtain s2 where p: "playerPhase rv s = Inr s2" using playerPhase_returns [OF assms] by blast
  have "mapRef s2 = mapRef s" by (subst playerPhase_frame [OF p]) simp
  with assms have "wfGrid (mapRef (bombPhase now s2))" by (simp add: bombPhase_fields)
  from bombsLoop_returns [OF this] obtain s4 where
    b: "bombsLoop rv dt now (length (bombsRef (bombPhase now s2))) (bombPhase now s2) = Inr s4"
    and wf4: "wfGrid (mapRef s4)" by blast
  let ?s5 = "explosionsLoop dt (length (explosionsRef s4)) s4"
  have "wfGrid (mapRef ?s5)" using wf4 by (simp add: explosionsLoop_frame)
  from enemiesForEach_returns [OF this] obtain es s6 where
    e: "enemiesForEach rv rnd 0 (enemiesRef ?s5) ?s5 = Inr (es, s6)" by blast
  obtain dx dy where d: "desiredStep (inputsRef s) (speed (playerRef s)) = (dx, dy)"
    by (cases "desiredStep (inputsRef s) (speed (playerRef s))") auto
  from p d obtain s1 where
    m1: "(if dx \<noteq> 0 then movePlayerX rv dx s else Inr s) = Inr s1" and
    m2: "(if dy \<noteq> 0 then movePlayerY rv dy s1 else Inr s1) = Inr s2"
    by (auto simp: playerPhase_def split: sum.splits)
  have "update rv dt rnd now s =
          Inr (if enemiesRef (s6\<lparr>enemiesRef := es\<rparr>) = [] \<and> gameStatus s = Playing
               then s6\<lparr>enemiesRef := es, gameStatus := Won\<rparr> else s6\<lparr>enemiesRef := es\<rparr>)"
    unfolding update_def using True d m1 m2 b e
    by (simp add: bombPhase_def Let_def del: bombsLoop.simps explosionsLoop.simps enemiesForEach.simps)
  then show ?thesis by blast
qed

text \<open>
  C2, as amended. A tick that starts in status Playing on a map of the generated size
  returns, whatever the delta-time \<open>dt\<close>, and: the live
  bombs afterwards are the bombs of before (and the one placed in this tick, with the full
  countdown) whose timer minus \<open>dt\<close> is positive, each with its timer lowered by \<open>dt\<close>;
  likewise the explosions (and those created in this tick, with the full duration); the
  player's position afterwards is the same for every delta-time; and every enemy left
  either stayed where it was or advanced by its direction times its speed.
\<close>

theorem tick_timers_and_steps:
  assumes "gameStatus s = Playing" and "wfGrid (mapRef s)"
  shows "\<exists>s'. update rv dt rnd now s = Inr s' \<and>
         (\<exists>placed. (placed = [] \<or> (\<exists>b. placed = [b] \<and> bomb_timer b = BOMB_TIMER_MS)) \<and>
            bombsRef s' = map (tickBomb dt) (filter (\<lambda>b. bomb_timer b - dt > 0) (bombsRef s @ placed))) \<and>
         (\<exists>created. (\<forall>e\<in>set created. explosion_timer e = EXPLOSION_DURATION_MS) \<and>
            explosionsRef s' =
              map (tickExplosion dt) (filter (\<lambda>e. explosion_timer e - dt > 0) (explosionsRef s @ created))) \<and>
         (\<forall>dt' rnd' now'. \<exists>s''. update rv dt' rnd' now' s = Inr s'' \<and>
            x (playerRef s'') = x (playerRef s') \<and> y (playerRef s'') = y (playerRef s')) \<and>
         (\<forall>e'\<in>set (enemiesRef s'). \<exists>e\<in>set (enemiesRef s). enemyMoved e e')"
proof -
  obtain s' where u: "update rv dt rnd now s = Inr s'"
    using update_returns [OF assms(2)] by blast
  note eff = tick_effects [OF assms(1) u]
  have "\<exists>s''. update rv dt' rnd' now' s = Inr s'' \<and>
            x (playerRef s'') = x (playerRef s') \<and> y (playerRef s'') = y (playerRef s')"
    for dt' rnd' now'
  proof -
    obtain s'' where u': "update rv dt' rnd' now' s = Inr s''"
      using update_returns [OF assms(2)] by blast
    with eff show ?thesis by blast
  qed
  with u eff show ?thesis by blast
qed

theorem tick_timers_and_steps_witness:
  "gameStatus (startWorld\<lparr>inputsRef := noKeys\<lparr>Space := True\<rparr>\<rparr>) = Playing \<and>
   wfGrid (mapRef (startWorld\<lparr>inputsRef := noKeys\<lparr>Space := True\<rparr>\<rparr>)) \<and>
   update Keyboard 16 (\<lambda>_. 1 / 2) 1000 (startWorld\<lparr>inputsRef := noKeys\<lparr>Space := True\<rparr>\<rparr>) = Inr bombWorld \<and>
   map bomb_timer (bombsRef bombWorld) = [BOMB_TIMER_MS - 16] \<and>
   enemyMoved (newEnemy (1 / 2) 7 7) ((newEnemy (1 / 2) 7 7)\<lparr>x := 362\<rparr>)"
proof -
  let ?s = "startWorld\<lparr>inputsRef := noKeys\<lparr>Space := True\<rparr>\<rparr>"
  have p: "gameStatus ?s = Playing"
    by (simp add: startWorld_def)
  have w: "wfGrid (mapRef ?s)"
    by (simp add: startWorld_def wfGrid_openArena)
  have b: "map bomb_timer (bombsRef bombWorld) = [BOMB_TIMER_MS - 16]"
    by (simp add: bombWorld_def bombAt_def)
  from tick_timers_and_steps [OF p w, of Keyboard 16 "\<lambda>_. 1 / 2" 1000] update_startWorld
  have "\<forall>e'\<in>set (enemiesRef bombWorld). \<exists>e\<in>set (enemiesRef ?s). enemyMoved e e'"
    by auto
  then have "enemyMoved (newEnemy (1 / 2) 7 7) ((newEnemy (1 / 2) 7 7)\<lparr>x := 362\<rparr>)"
    by (simp add: bombWorld_def startWorld_def)
  with p w b update_startWorld show ?thesis by blast
qed

text \<open>
  C2 as stated fails: from the same state, with the right key held, a tick of 16 ms and a
  tick of 32 ms move the player by the same 3.5 pixels and the first enemy by the same
  2 pixels.
\<close>

lemma halfRnd_const: "halfRnd = (\<lambda>_. 1 / 2)"
  by (simp add: fun_eq_iff halfRnd_def)

theorem displacement_proportional_counterexample:
  "update Keyboard 16 halfRnd 1000 walkStart = Inr walkNext \<and>
   update Keyboard 32 halfRnd 1000 walkStart = Inr walkNext \<and>
   x (playerRef walkNext) - x (playerRef walkStart) = 7 / 2 \<and>
   x (hd (enemiesRef walkNext)) - x (hd (enemiesRef walkStart)) = 2"
  by (simp add: halfRnd_const walkStart_def walkNext_def startWorld_def eval_defs)

subsection \<open>The status after a fatal tick\<close>

text \<open>
  In a tick that starts in status Playing with the player alive and ends with the player
  dead, the status afterwards is Lost when an enemy is left, and Won when none is.
\<close>

lemma hitParticle_lifeStatus: "lifeStatus s \<Longrightarrow> lifeStatus (hitParticle s p)"
  by (auto simp: lifeStatus_def hitParticle_def Let_def enemyHitLoop_frame)

lemma foldl_hitParticle_lifeStatus: "lifeStatus s \<Longrightarrow> lifeStatus (foldl hitParticle s ps)"
  by (induction ps arbitrary: s) (simp_all add: hitParticle_lifeStatus)

lemma explosionsLoop_lifeStatus: "lifeStatus s \<Longrightarrow> lifeStatus (explosionsLoop dt n s)"
proof (induction n arbitrary: s)
  case 0
  then show ?case by simp
next
  case (Suc n)
  let ?e = "(explosionsRef s ! n)\<lparr>explosion_timer := explosion_timer (explosionsRef s ! n) - dt\<rparr>"
  let ?s1 = "s\<lparr>explosionsRef := (explosionsRef s)[n := ?e]\<rparr>"
  have l1: "lifeStatus ?s1" using Suc.prems by (simp add: lifeStatus_def)
  show ?case
  proof (cases "explosion_timer ?e \<le> 0")
    case True
    have "lifeStatus (?s1\<lparr>explosionsRef := splice1 n (explosionsRef ?s1)\<rparr>)"
      using Suc.prems by (simp add: lifeStatus_def)
    from Suc.IH [OF this] True show ?thesis by (simp add: Let_def)
  next
    case False
    from Suc.IH [OF foldl_hitParticle_lifeStatus [OF l1, of "particles ?e"]] False
    show ?thesis by (simp add: Let_def)
  qed
qed

lemma enemyStep_lifeStatus:
  "enemyStep rv rnd k enemy s = Inr (enemy', k', s') \<Longrightarrow> lifeStatus s \<Longrightarrow> lifeStatus s'"
  by (auto simp: enemyStep_def lifeStatus_def Let_def split: sum.splits if_splits prod.splits)

lemma enemiesForEach_lifeStatus:
  "enemiesForEach rv rnd k es s = Inr (es', s') \<Longrightarrow> lifeStatus s \<Longrightarrow> lifeStatus s'"
proof (induction es arbitrary: k s es')
  case Nil
  then show ?case by simp
next
  case (Cons enemy es)
  from Cons.prems obtain enemy1 k1 s1 es1 where
    st: "enemyStep rv rnd k enemy s = Inr (enemy1, k1, s1)" and
    re: "enemiesForEach rv rnd k1 es s1 = Inr (es1, s')"
    by (auto split: sum.splits prod.splits)
  from Cons.IH [OF re enemyStep_lifeStatus [OF st Cons.prems(2)]] show ?case .
qed

lemma update_fatal_status:
  assumes "gameStatus s = Playing" and "alive (playerRef s)"
    and "update rv dt rnd now s = Inr s'" and "\<not> alive (playerRef s')"
  shows "gameStatus s' = (if enemiesRef s' = [] then Won else Lost)"
proof -
  from assms(1,3) obtain s2 s4 es s6 where
    p: "playerPhase rv s = Inr s2" and
    b: "bombsLoop rv dt now (length (bombsRef (bombPhase now s2))) (bombPhase now s2) = Inr s4" and
    e: "enemiesForEach rv rnd 0 (enemiesRef (explosionsLoop dt (length (explosionsRef s4)) s4))
           (explosionsLoop dt (length (explosionsRef s4)) s4) = Inr (es, s6)" and
    f: "s' = (if es = [] then s6\<lparr>enemiesRef := es, gameStatus := Won\<rparr> else s6\<lparr>enemiesRef := es\<rparr>)"
    by (rule update_phases)
  have "alive (playerRef s2) \<and> gameStatus s2 = Playing"
    using assms(1,2) by (subst playerPhase_frame [OF p], simp)+
  then have "lifeStatus s4"
    using bombsLoop_frame [OF b] by (simp add: lifeStatus_def bombPhase_fields)
  then have "lifeStatus s6"
    using enemiesForEach_lifeStatus [OF e] explosionsLoop_lifeStatus by blast
  with f assms(4) show ?thesis
    by (auto simp: lifeStatus_def split: if_splits)
qed

lemma genMap_roundRnd: "genMap Keyboard roundRnd 15 = (openArena, 130)"
  by code_simp

lemma replicate3: "replicate 3 e = [e, e, e]"
  by (simp add: numeral_3_eq_3)

lemma initGame_raidStart: "initGame Keyboard roundRnd menuWorld = Some (Inr raidStart)"
proof -
  have "spawnLoop Keyboard openArena roundRnd 130 3 0 [] =
          Some (Inr [newEnemy (7 / 20) 1 5, newEnemy (7 / 20) 1 5, newEnemy (7 / 20) 1 5])"
    by (simp add: spawnLoop.simps openArena_tileAt forcedWall_def roundRnd_def)
  with genMap_roundRnd show ?thesis
    by (simp add: initGame_def menuWorld_def raidStart_def replicate3)
qed

lemmas raid_defs = eval_defs randomDir_def enemyDirs_def raidEnemy_def

lemma update_raidStart:
  "update Keyboard 16 turnRnd 0 (raidStart\<lparr>inputsRef := noKeys\<lparr>ArrowRight := True\<rparr>\<rparr>) = Inr (raidWalk 1)"
  by (simp add: raidStart_def raidWalk_def turnRnd_def raid_defs)

lemma update_raidWalk:
  assumes "1 \<le> k" and "k \<le> 20"
  shows "update Keyboard 16 calmRnd 0 (raidWalk k) = Inr (raidWalk (Suc k))"
proof -
  from assms have
    "k = 20 \<or> k = 19 \<or> k = 18 \<or> k = 17 \<or> k = 16 \<or> k = 15 \<or> k = 14 \<or>
      k = 13 \<or> k = 12 \<or> k = 11 \<or> k = 10 \<or> k = 9 \<or> k = 8 \<or> k = 7 \<or>
      k = 6 \<or> k = 5 \<or> k = 4 \<or> k = 3 \<or> k = 2 \<or> k = 1"
    by arith
  then show ?thesis
    by (elim disjE) (simp_all add: raidWalk_def calmRnd_def raid_defs)
qed

lemma reachable_raidWalk: "1 \<le> n \<Longrightarrow> n \<le> 21 \<Longrightarrow> reachable Keyboard (raidWalk n)"
proof (induction n)
  case 0
  then show ?case by simp
next
  case (Suc n)
  show ?case
  proof (cases "n = 0")
    case True
    have "reachable Keyboard raidStart"
      using initGame_raidStart by (rule reachable.start)
    then have "reachable Keyboard (raidStart\<lparr>inputsRef := noKeys\<lparr>ArrowRight := True\<rparr>\<rparr>)"
      by (rule reachable.keys)
    then have "reachable Keyboard (raidWalk 1)" using update_raidStart by (rule reachable.tick)
    with True show ?thesis by simp
  next
    case False
    with Suc.prems have n: "1 \<le> n" "n \<le> 20" by simp_all
    then have "reachable Keyboard (raidWalk n)" using Suc.IH by simp
    then show ?thesis using update_raidWalk [OF n] by (rule reachable.tick)
  qed
qed

lemma update_raidBomb:
  "update Keyboard 2999 calmRnd 4000 ((raidWalk 21)\<lparr>inputsRef := noKeys\<lparr>Space := True\<rparr>\<rparr>) = Inr doomWorld"
  by (simp add: raidWalk_def doomWorld_def calmRnd_def raid_defs)

lemma reachable_doomWorld: "reachable Keyboard doomWorld"
proof -
  have "reachable Keyboard (raidWalk 21)" by (rule reachable_raidWalk) simp_all
  then have "reachable Keyboard ((raidWalk 21)\<lparr>inputsRef := noKeys\<lparr>Space := True\<rparr>\<rparr>)"
    by (rule reachable.keys)
  then show ?thesis using update_raidBomb by (rule reachable.tick)
qed

lemmas blast_defs = explodeBomb_def splice1_def dirs_def rayLoop.simps withAlpha_def particleAt_def
  cellParticle_def hitParticle_def

lemma update_doomWorld: "update Keyboard 1 calmRnd 5000 doomWorld = Inr doomResult"
  by (simp add: doomWorld_def doomResult_def calmRnd_def raid_defs blast_defs)

text \<open>
  C3 fails on the code. \<open>doomWorld\<close> is reachable, its status is Playing and the player is
  alive; in the next tick (1 ms) the bomb under the player detonates, the blast kills the
  player (which writes Lost) and removes the three enemies, and the last statement of
  \<^verbatim>\<open>update\<close>, whose test \<^verbatim>\<open>gameStatus === GameStatus.Playing\<close> still reads the status the
  tick started with, writes Won over it: the round ends Won with a dead player.
\<close>

theorem won_after_fatal_tick:
  "reachable Keyboard doomWorld \<and> gameStatus doomWorld = Playing \<and> alive (playerRef doomWorld) \<and>
   update Keyboard 1 calmRnd 5000 doomWorld = Inr doomResult \<and>
   \<not> alive (playerRef doomResult) \<and> gameStatus doomResult = Won"
  using reachable_doomWorld update_doomWorld
  by (simp add: doomWorld_def doomResult_def newPlayer_def)

end
